theory Spec2Isabelle
  imports Complex_Main "HOL-Library.Log_Nat"
begin

section \<open>Training utilities of \<^verbatim>\<open>common/tools.py\<close>\<close>

text \<open>
  The development embeds the self-contained part of \<^verbatim>\<open>common/tools.py\<close>: the running
  average \<^verbatim>\<open>AverageMeter\<close>, the line formatter \<^verbatim>\<open>ProgressMeter\<close>, the top-k
  \<^verbatim>\<open>accuracy\<close> and the skeletons of the \<^verbatim>\<open>train\<close> and \<^verbatim>\<open>evaluate\<close> loops.

  Numbers. Python's \<^verbatim>\<open>int\<close> is \<open>int\<close>. A Python \<^verbatim>\<open>float\<close> is an IEEE 754 binary64 number
  and an entry of a float tensor a binary32 number; their arithmetic rounds every result
  to the nearest number of the format, ties to even. \<^verbatim>\<open>accuracy\<close> and \<^verbatim>\<open>AverageMeter\<close> are
  modelled in this arithmetic. The loops \<^verbatim>\<open>train\<close> and \<^verbatim>\<open>evaluate\<close> are modelled for the calls
  they make and the order of their effects; the meters they keep accumulate in exact
  arithmetic there, which none of the statements about the loops depends on.

  Errors. Every \<^verbatim>\<open>raise\<close> the modelled code can reach is a value of \<open>error\<close>. A pure
  function that can raise returns \<open>error + 'a\<close> with \<open>Inl\<close> for the exception; a method
  or statement that changes state returns, with the exception, the state it leaves.
\<close>

datatype error =
    ZeroDivisionError  \<comment> \<open>division of a Python number by zero\<close>
  | ValueError         \<comment> \<open>\<^verbatim>\<open>max(())\<close>, a malformed format specification\<close>
  | RuntimeError       \<comment> \<open>a torch shape or range check\<close>
  | IndexError         \<comment> \<open>indexing an empty tensor\<close>
  | AttributeError     \<comment> \<open>\<^verbatim>\<open>.to\<close> or \<^verbatim>\<open>.item\<close> of a Python \<^verbatim>\<open>int\<close>\<close>
  | CollaboratorError  \<comment> \<open>an exception raised inside the model or the loss function\<close>
  | NotModelled        \<comment> \<open>a format string outside the fragment of \<^verbatim>\<open>str.format\<close> modelled here\<close>

subsection \<open>Floating-point numbers\<close>

text \<open>
  Rounding to the nearest integer, ties to the even one.
\<close>

definition round_half_even :: "real \<Rightarrow> int" where
  "round_half_even x =
     (let f = \<lfloor>x\<rfloor>; d = x - of_int f
      in if d < 1 / 2 then f else if 1 / 2 < d then f + 1 else if even f then f else f + 1)"

text \<open>
  The binary exponent of a non-zero number \<open>x\<close>: the \<open>e\<close> with \<open>2 ^ e \<le> |x| < 2 ^ (e + 1)\<close>, computed
  from the bit length of the integer part of \<open>|x|\<close> or of \<open>1/|x|\<close>.
\<close>

definition expo :: "real \<Rightarrow> int" where
  "expo x = (if 1 \<le> \<bar>x\<bar> then bitlen \<lfloor>\<bar>x\<bar>\<rfloor> - 1 else - bitlen (\<lceil>1 / \<bar>x\<bar>\<rceil> - 1))"

text \<open>
  \<open>rnd p emin x\<close> is the real number \<open>x\<close> rounded to the nearest number of the binary
  format with \<open>p\<close> significant bits and least normal exponent \<open>emin\<close>, ties to the even
  significand: the numbers of the format near \<open>x\<close> are the multiples of the unit in the last
  place \<open>2 ^ (e - p + 1)\<close>, where \<open>e\<close> is the exponent of \<open>x\<close>, and \<open>emin\<close> for a subnormal \<open>x\<close>. The
  result is not bounded above: whether it exceeds the largest number of the format is
  for the operation that rounds to decide. \<open>rnd32\<close> rounds to binary32, the \<^verbatim>\<open>float32\<close>
  of torch, and \<open>rnd64\<close> to binary64, the \<^verbatim>\<open>float\<close> of Python.
\<close>

definition rnd :: "nat \<Rightarrow> int \<Rightarrow> real \<Rightarrow> real" where
  "rnd p emin x =
     (if x = 0 then 0
      else (let u = 2 powi (max (expo x) emin - int p + 1)
            in real_of_int (round_half_even (x / u)) * u))"

definition rnd32 :: "real \<Rightarrow> real" where
  "rnd32 = rnd 24 (- 126)"

definition rnd64 :: "real \<Rightarrow> real" where
  "rnd64 = rnd 53 (- 1022)"

subsection \<open>AverageMeter\<close>

text \<open>
  \<^verbatim>\<open>
  class AverageMeter(object):
      def __init__(self, name, fmt=':f'):
          self.name = name
          self.fmt = fmt
          self.reset()
      def reset(self):
          self.val = 0
          self.avg = 0
          self.sum = 0
          self.count = 0
      def update(self, val, n=1):
          self.val = val
          self.sum += val * n
          self.count += n
          self.avg = self.sum / self.count
  \<close>
  The fields \<^verbatim>\<open>sum\<close> and \<^verbatim>\<open>count\<close> are \<open>sum_m\<close> and \<open>count_m\<close> here. The values and
  weights are Python numbers (\<^verbatim>\<open>int\<close> or \<^verbatim>\<open>float\<close>). The division in the last line of
  \<^verbatim>\<open>update\<close> then raises \<^verbatim>\<open>ZeroDivisionError\<close> when the new count is zero; the three
  assignments before it have happened by then, so the failing branch carries the meter
  as the exception leaves it. (A tensor divided by zero does not raise; a meter fed
  tensors is outside this model, see \<open>update_top1\<close> below for the one the loops feed.)
\<close>

record AverageMeter =
  name :: string
  fmt :: string
  val :: real
  avg :: real
  sum_m :: real
  count_m :: real

definition reset :: "AverageMeter \<Rightarrow> AverageMeter" where
  "reset m = m\<lparr>val := 0, avg := 0, sum_m := 0, count_m := 0\<rparr>"

definition AverageMeter_init :: "string \<Rightarrow> string \<Rightarrow> AverageMeter" where
  "AverageMeter_init nm f =
     reset \<lparr>name = nm, fmt = f, val = 0, avg = 0, sum_m = 0, count_m = 0\<rparr>"

text \<open>The meter after the first three assignments of \<^verbatim>\<open>update\<close>.\<close>

definition update_pre :: "AverageMeter \<Rightarrow> real \<Rightarrow> real \<Rightarrow> AverageMeter" where
  "update_pre m v n = m\<lparr>val := v, sum_m := sum_m m + v * n, count_m := count_m m + n\<rparr>"

definition update :: "AverageMeter \<Rightarrow> real \<Rightarrow> real \<Rightarrow> (error \<times> AverageMeter) + AverageMeter" where
  "update m v n =
     (let m1 = update_pre m v n
      in if count_m m1 = 0 then Inl (ZeroDivisionError, m1)
         else Inr (m1\<lparr>avg := sum_m m1 / count_m m1\<rparr>))"

text \<open>The meter after an update that does not raise.\<close>

definition updated :: "AverageMeter \<Rightarrow> real \<Rightarrow> real \<Rightarrow> AverageMeter" where
  "updated m v n =
     m\<lparr>val := v, sum_m := sum_m m + v * n, count_m := count_m m + n,
       avg := (sum_m m + v * n) / (count_m m + n)\<rparr>"


subsection \<open>Rendering: \<^verbatim>\<open>AverageMeter.__str__\<close> and \<^verbatim>\<open>ProgressMeter\<close>\<close>

text \<open>
  \<^verbatim>\<open>
  class AverageMeter(object):
      def __str__(self):
          fmtstr = '{name} {avg' + self.fmt + '}'
          return fmtstr.format(**self.__dict__)

  class ProgressMeter(object):
      def __init__(self, num_batches, meters, prefix=""):
          self.batch_fmtstr = self._get_batch_fmtstr(num_batches)
          self.meters = meters
          self.prefix = prefix
      def display(self, batch):
          entries = [self.prefix + self.batch_fmtstr.format(batch)]
          entries += [str(meter) for meter in self.meters]
          print('\t'.join(entries))
      def _get_batch_fmtstr(self, num_batches):
          num_digits = len(str(num_batches // 1))
          fmt = '{:' + str(num_digits) + 'd}'
          return '[' + fmt + '/' + fmt.format(num_batches) + ']'
  \<close>
  Both classes build a format string and hand it to \<^verbatim>\<open>str.format\<close>. The model covers the
  fragment of Python's format mini-language that this file uses: a format specification
  is an optional width (decimal digits, not starting with 0, which would be the
  zero-padding flag), an optional \<^verbatim>\<open>.precision\<close> and a type character; type \<^verbatim>\<open>d\<close>
  renders an integer and type \<^verbatim>\<open>f\<close> a number in fixed point, both right-aligned and
  padded with spaces to the width. Whatever lies outside the fragment is \<open>NotModelled\<close>.
  \<^verbatim>\<open>num_batches\<close> and \<^verbatim>\<open>batch\<close> are Python integers, so \<^verbatim>\<open>num_batches // 1\<close> is
  \<^verbatim>\<open>num_batches\<close>. Fixed point rounds the exact value half to even, as Python does for
  the exact value of a float.
\<close>

text \<open>\<^verbatim>\<open>str(n)\<close> of a Python integer: its decimal digits, after a minus sign when negative.\<close>

definition digit_char :: "nat \<Rightarrow> char" where
  "digit_char d = ''0123456789'' ! d"

fun str_nat :: "nat \<Rightarrow> string" where
  "str_nat n = (if n < 10 then [digit_char n] else str_nat (n div 10) @ [digit_char (n mod 10)])"

declare str_nat.simps [simp del]

definition str_int :: "int \<Rightarrow> string" where
  "str_int i = (if i < 0 then CHR ''-'' # str_nat (nat (- i)) else str_nat (nat i))"

text \<open>Right alignment in a field of width \<open>w\<close>: spaces on the left, never a cut.\<close>

definition lpad :: "nat \<Rightarrow> string \<Rightarrow> string" where
  "lpad w s = replicate (w - length s) CHR '' '' @ s"

text \<open>A format specification \<^verbatim>\<open>[width][.precision]type\<close>, read into its three parts.\<close>

definition is_digit :: "char \<Rightarrow> bool" where
  "is_digit c = (c \<in> set ''0123456789'')"

definition digit_val :: "char \<Rightarrow> nat" where
  "digit_val c = of_char c - 48"

definition nat_of_digits :: "string \<Rightarrow> nat" where
  "nat_of_digits ds = foldl (\<lambda>n c. 10 * n + digit_val c) 0 ds"

definition parse_spec :: "string \<Rightarrow> error + (nat \<times> nat option \<times> char)" where
  "parse_spec s =
     (let w = takeWhile is_digit s; r = dropWhile is_digit s
      in if w \<noteq> [] \<and> hd w = CHR ''0'' then Inl NotModelled
         else (case r of
                 [t] \<Rightarrow> Inr (nat_of_digits w, None, t)
               | c # r2 \<Rightarrow>
                   if c = CHR ''.'' then
                     (let p = takeWhile is_digit r2 in
                      case dropWhile is_digit r2 of
                        [t] \<Rightarrow> if p = [] then Inl ValueError
                               else Inr (nat_of_digits w, Some (nat_of_digits p), t)
                      | _ \<Rightarrow> Inl NotModelled)
                   else Inl NotModelled
               | [] \<Rightarrow> Inl NotModelled))"

text \<open>\<^verbatim>\<open>format(x, spec)\<close> for an integer \<open>x\<close>: a precision with type \<^verbatim>\<open>d\<close> is a \<^verbatim>\<open>ValueError\<close>.\<close>

definition format_int :: "nat \<times> nat option \<times> char \<Rightarrow> int \<Rightarrow> error + string" where
  "format_int sp x =
     (case sp of (w, p, t) \<Rightarrow>
        if t = CHR ''d'' then (case p of None \<Rightarrow> Inr (lpad w (str_int x)) | Some _ \<Rightarrow> Inl ValueError)
        else Inl NotModelled)"

text \<open>\<^verbatim>\<open>format(x, spec)\<close> for a number \<open>x\<close> and type \<^verbatim>\<open>f\<close>: the sign, the integer part, and
  after a point the fraction in exactly \<open>p\<close> digits (6 when the specification gives none),
  the last digit rounded half to even on the exact value.\<close>

definition fixed_str :: "nat \<Rightarrow> real \<Rightarrow> string" where
  "fixed_str p x =
     (let q = nat (round_half_even (\<bar>x\<bar> * 10 ^ p));
          ip = str_nat (q div 10 ^ p);
          fp = str_nat (q mod 10 ^ p)
      in (if x < 0 then ''-'' else '''') @ ip
         @ (if p = 0 then '''' else ''.'' @ replicate (p - length fp) CHR ''0'' @ fp))"

definition format_float :: "nat \<times> nat option \<times> char \<Rightarrow> real \<Rightarrow> error + string" where
  "format_float sp x =
     (case sp of (w, p, t) \<Rightarrow>
        if t = CHR ''f'' then Inr (lpad w (fixed_str (case p of None \<Rightarrow> 6 | Some n \<Rightarrow> n) x))
        else Inl NotModelled)"

text \<open>\<^verbatim>\<open>str(meter)\<close>: the name, a space, and \<^verbatim>\<open>avg\<close> rendered by the format \<^verbatim>\<open>fmt\<close>, which must be
  a colon and a specification.\<close>

definition AverageMeter_str :: "AverageMeter \<Rightarrow> error + string" where
  "AverageMeter_str m =
     (case fmt m of
        c # spec \<Rightarrow>
          if c = CHR '':'' then
            (case parse_spec spec of
               Inl e \<Rightarrow> Inl e
             | Inr sp \<Rightarrow>
                 (case format_float sp (avg m) of
                    Inl e \<Rightarrow> Inl e
                  | Inr s \<Rightarrow> Inr (name m @ '' '' @ s)))
          else Inl NotModelled
      | [] \<Rightarrow> Inl NotModelled)"

text \<open>\<^verbatim>\<open>template.format(x)\<close> with one integer argument: the text before the one replacement
  field \<^verbatim>\<open>{:spec}\<close>, the argument rendered by the specification, and the text after it.
  A template with no field is returned as it is; an unclosed field is a \<^verbatim>\<open>ValueError\<close>.\<close>

definition brace :: "char \<Rightarrow> bool" where
  "brace c = (c = CHR ''{'' \<or> c = CHR ''}'')"

definition str_format :: "string \<Rightarrow> int \<Rightarrow> error + string" where
  "str_format tpl x =
     (let pre = takeWhile (\<lambda>c. \<not> brace c) tpl
      in case dropWhile (\<lambda>c. \<not> brace c) tpl of
           [] \<Rightarrow> Inr pre
         | c # r \<Rightarrow>
             if c = CHR ''}'' then Inl NotModelled
             else (let field = takeWhile (\<lambda>c. \<not> brace c) r
                   in case dropWhile (\<lambda>c. \<not> brace c) r of
                        [] \<Rightarrow> Inl ValueError
                      | c' # post \<Rightarrow>
                          if c' = CHR ''{'' \<or> list_ex brace post then Inl NotModelled
                          else (case field of
                                  c'' # spec \<Rightarrow>
                                    if c'' = CHR '':'' then
                                      (case parse_spec spec of
                                         Inl e \<Rightarrow> Inl e
                                       | Inr sp \<Rightarrow>
                                           (case format_int sp x of
                                              Inl e \<Rightarrow> Inl e
                                            | Inr s \<Rightarrow> Inr (pre @ s @ post)))
                                    else Inl NotModelled
                                | [] \<Rightarrow> Inl NotModelled)))"

record ProgressMeter =
  batch_fmtstr :: string
  meters :: "AverageMeter list"
  prefix :: string

definition get_batch_fmtstr :: "int \<Rightarrow> error + string" where
  "get_batch_fmtstr num_batches =
     (let num_digits = length (str_int num_batches);
          fmt = ''{:'' @ str_nat num_digits @ ''d}''
      in case str_format fmt num_batches of
           Inl e \<Rightarrow> Inl e
         | Inr s \<Rightarrow> Inr (''['' @ fmt @ ''/'' @ s @ '']''))"

definition ProgressMeter_init :: "int \<Rightarrow> AverageMeter list \<Rightarrow> string \<Rightarrow> error + ProgressMeter" where
  "ProgressMeter_init num_batches ms pfx =
     (case get_batch_fmtstr num_batches of
        Inl e \<Rightarrow> Inl e
      | Inr f \<Rightarrow> Inr \<lparr>batch_fmtstr = f, meters = ms, prefix = pfx\<rparr>)"

text \<open>\<^verbatim>\<open>[str(meter) for meter in self.meters]\<close>, in order; the first exception ends it.\<close>

fun meter_strs :: "AverageMeter list \<Rightarrow> error + string list" where
  "meter_strs [] = Inr []"
| "meter_strs (m # ms) =
     (case AverageMeter_str m of
        Inl e \<Rightarrow> Inl e
      | Inr s \<Rightarrow> (case meter_strs ms of Inl e \<Rightarrow> Inl e | Inr ss \<Rightarrow> Inr (s # ss)))"

text \<open>\<^verbatim>\<open>sep.join(entries)\<close>.\<close>

fun join :: "string \<Rightarrow> string list \<Rightarrow> string" where
  "join sep [] = []"
| "join sep [x] = x"
| "join sep (x # y # ys) = x @ sep @ join sep (y # ys)"

text \<open>\<^verbatim>\<open>display\<close> returns the line it prints. It reads the meters and assigns to no field.\<close>

definition display :: "ProgressMeter \<Rightarrow> int \<Rightarrow> error + string" where
  "display pm batch =
     (case str_format (batch_fmtstr pm) batch of
        Inl e \<Rightarrow> Inl e
      | Inr b \<Rightarrow>
          (case meter_strs (meters pm) of
             Inl e \<Rightarrow> Inl e
           | Inr ss \<Rightarrow> Inr (join [CHR 0x09] ((prefix pm @ b) # ss))))"

subsection \<open>accuracy\<close>

text \<open>
  \<^verbatim>\<open>
  def accuracy(output, target, topk=(1,)):
      with torch.no_grad():
          maxk = max(topk)
          batch_size = target.size(0)

          _, pred = output.topk(maxk, 1, True, True)
          pred = pred.t()
          correct = pred.eq(target.view(1, -1).expand_as(pred))

          res = []
          for k in topk:
              correct_k = correct[:k].reshape(-1).float().sum(0, keepdim=True)
              res.append(correct_k.mul_(100.0 / batch_size))
          return res
  \<close>
  \<^verbatim>\<open>output\<close> is a two-dimensional tensor of scores: \<open>rows\<close> holds its N rows and \<open>ncols\<close>
  its second dimension C, which the tensor has also when N = 0. The scores are of any
  linearly ordered type. \<^verbatim>\<open>target\<close> is a one-dimensional tensor of integer labels and
  \<^verbatim>\<open>topk\<close> a tuple of Python integers.
\<close>

record 'a tensor2 =
  ncols :: nat
  rows :: "'a list list"

text \<open>
  A tensor as torch can hold it: every row has \<open>ncols\<close> entries, and the number of rows
  is a size of a dimension, a signed 64-bit integer.
\<close>

definition wf_tensor2 :: "'a tensor2 \<Rightarrow> bool" where
  "wf_tensor2 t = (list_all (\<lambda>r. length r = ncols t) (rows t) \<and> length (rows t) < 2 ^ 63)"

text \<open>\<^verbatim>\<open>max(topk)\<close>: \<^verbatim>\<open>ValueError\<close> on the empty tuple.\<close>

definition py_max :: "int list \<Rightarrow> error + int" where
  "py_max ks = (case ks of [] \<Rightarrow> Inl ValueError | k # ks' \<Rightarrow> Inr (foldl max k ks'))"

text \<open>
  \<^verbatim>\<open>output.topk(maxk, 1, True, True)\<close> returns, for every row, the indices of its
  \<^verbatim>\<open>maxk\<close> largest entries, largest first, and raises when \<^verbatim>\<open>maxk\<close> is not within
  0..C. Torch leaves the order of equal entries to the implementation; the model fixes
  one order: \<open>argsort_desc\<close> sorts the indices by descending score with a stable
  insertion sort, so that of two equal scores the lower index comes first.
\<close>

fun insort_desc :: "('b \<Rightarrow> 'a::linorder) \<Rightarrow> 'b \<Rightarrow> 'b list \<Rightarrow> 'b list" where
  "insort_desc f x [] = [x]"
| "insort_desc f x (y # ys) = (if f y \<le> f x then x # y # ys else y # insort_desc f x ys)"

definition argsort_desc :: "'a::linorder list \<Rightarrow> nat list" where
  "argsort_desc s = foldr (insort_desc (\<lambda>i. s ! i)) [0..<length s] []"

definition tensor_topk :: "'a::linorder tensor2 \<Rightarrow> int \<Rightarrow> error + nat list list" where
  "tensor_topk t k =
     (if k < 0 \<or> int (ncols t) < k then Inl RuntimeError
      else Inr (map (\<lambda>r. take (nat k) (argsort_desc r)) (rows t)))"

text \<open>\<^verbatim>\<open>pred.t()\<close>: the N rows of k indices become k rows of N indices.\<close>

definition tensor_t :: "nat \<Rightarrow> 'b list list \<Rightarrow> 'b list list" where
  "tensor_t k xss = map (\<lambda>p. map (\<lambda>r. r ! p) xss) [0..<k]"

text \<open>
  \<^verbatim>\<open>target.view(1, -1).expand_as(pred)\<close>: the labels as one row, repeated for every
  row of \<^verbatim>\<open>pred\<close>. Torch expands a dimension of size 1 only, so a target of one label
  is broadcast over the N examples, and any other length than N raises.
\<close>

definition expand_as :: "int list \<Rightarrow> nat \<Rightarrow> error + int list" where
  "expand_as target n =
     (if length target = n then Inr target
      else if length target = 1 then Inr (replicate n (hd target))
      else Inl RuntimeError)"

text \<open>\<^verbatim>\<open>xs[:k]\<close> for a Python integer \<^verbatim>\<open>k\<close>: a negative \<^verbatim>\<open>k\<close> counts from the end.\<close>

definition py_slice_to :: "int \<Rightarrow> 'b list \<Rightarrow> 'b list" where
  "py_slice_to k xs = (if 0 \<le> k then take (nat k) xs else take (nat (int (length xs) + k)) xs)"

text \<open>The number of true entries of \<^verbatim>\<open>correct[:k]\<close>.\<close>

definition count_true :: "bool list list \<Rightarrow> real" where
  "count_true bss = sum_list (map (\<lambda>b. if b then 1 else 0) (concat bss))"

text \<open>
  The loop over \<^verbatim>\<open>topk\<close>, in the arithmetic of the source.

  \<^verbatim>\<open>.reshape(-1).float().sum(0, keepdim=True)\<close> adds ones and zeros in float32. Every
  partial sum is an integer, so up to \<open>2 ^ 24\<close> true entries the sum is their number, in
  whatever order torch adds; for more, the sum is taken to be the float32 nearest to
  their number.

  \<^verbatim>\<open>100.0 / batch_size\<close> divides a Python float by a Python int: it raises
  \<^verbatim>\<open>ZeroDivisionError\<close> when the batch is empty, and otherwise converts the int to a float
  and rounds the quotient to a float. A dimension of a tensor is below \<open>2 ^ 63\<close>, so the
  conversion cannot overflow.

  \<^verbatim>\<open>correct_k.mul_(c)\<close> multiplies a float32 tensor by a Python float: torch casts the
  float to float32 and rounds the product to float32. The factors are not negative and
  the product is far below the largest float32, so the result is a finite number and is
  kept as the real number it is. Each entry of the result is the value of the
  one-element tensor the source appends.
\<close>

fun accuracy_loop :: "bool list list \<Rightarrow> nat \<Rightarrow> int list \<Rightarrow> error + real list" where
  "accuracy_loop correct batch_size [] = Inr []"
| "accuracy_loop correct batch_size (k # ks) =
     (if batch_size = 0 then Inl ZeroDivisionError
      else (case accuracy_loop correct batch_size ks of
              Inl e \<Rightarrow> Inl e
            | Inr res \<Rightarrow>
                Inr (rnd32 (rnd32 (count_true (py_slice_to k correct))
                            * rnd32 (rnd64 (100 / rnd64 (real batch_size)))) # res)))"

definition accuracy :: "'a::linorder tensor2 \<Rightarrow> int list \<Rightarrow> int list \<Rightarrow> error + real list" where
  "accuracy output target topk =
     (case py_max topk of
        Inl e \<Rightarrow> Inl e
      | Inr maxk \<Rightarrow>
          let batch_size = length target in
          (case tensor_topk output maxk of
             Inl e \<Rightarrow> Inl e
           | Inr pred0 \<Rightarrow>
               let pred = tensor_t (nat maxk) pred0 in
               (case expand_as target (length (rows output)) of
                  Inl e \<Rightarrow> Inl e
                | Inr tgt \<Rightarrow>
                    let correct = map (\<lambda>prow. map2 (\<lambda>p t. int p = t) prow tgt) pred
                    in accuracy_loop correct batch_size topk)))"

text \<open>
  The specification's reading of "the true label is among the k highest-scoring
  classes", stated without a sort. Class \<open>j\<close> spec_outranks class \<open>l\<close> in the score vector
  \<open>s\<close> when its score is higher, or equal with \<open>j\<close> the lower index; the label is among
  the top k when it is a class of \<open>s\<close> that fewer than k classes outrank.
\<close>

definition spec_outranks :: "'a::linorder list \<Rightarrow> nat \<Rightarrow> nat \<Rightarrow> bool" where
  "spec_outranks s j l = (s ! l < s ! j \<or> (s ! j = s ! l \<and> j < l))"

definition spec_rank :: "'a::linorder list \<Rightarrow> nat \<Rightarrow> nat" where
  "spec_rank s l = length (filter (\<lambda>j. spec_outranks s j l) [0..<length s])"

definition spec_in_top :: "nat \<Rightarrow> 'a::linorder list \<Rightarrow> int \<Rightarrow> bool" where
  "spec_in_top k s l = (0 \<le> l \<and> nat l < length s \<and> spec_rank s (nat l) < k)"

text \<open>The number of examples of a batch whose label is among the top k of its scores.\<close>

definition spec_hits :: "nat \<Rightarrow> 'a::linorder list list \<Rightarrow> int list \<Rightarrow> nat" where
  "spec_hits k ss ls = length (filter (\<lambda>(s, l). spec_in_top k s l) (zip ss ls))"

text \<open>
  The percentage as the source computes it from a number \<open>h\<close> of hits among \<open>N\<close>
  examples: the float32 product of \<open>h\<close> and the float32 nearest to the float \<^verbatim>\<open>100.0 / N\<close>.
\<close>

definition float_percent :: "nat \<Rightarrow> nat \<Rightarrow> real" where
  "float_percent h N = rnd32 (rnd32 (real h) * rnd32 (rnd64 (100 / rnd64 (real N))))"

text \<open>
  The matrix \<^verbatim>\<open>correct\<close> of the source when \<^verbatim>\<open>maxk\<close> is \<open>K\<close> and the target needs no
  broadcast: row \<open>p\<close> tells, example by example, whether the class ranked \<open>p\<close> is the label.
\<close>

definition correct_of :: "'a::linorder tensor2 \<Rightarrow> int list \<Rightarrow> nat \<Rightarrow> bool list list" where
  "correct_of output tgt K =
     map (\<lambda>prow. map2 (\<lambda>p t. int p = t) prow tgt)
       (tensor_t K (map (\<lambda>r. take K (argsort_desc r)) (rows output)))"

subsection \<open>The loops \<^verbatim>\<open>train\<close> and \<^verbatim>\<open>evaluate\<close>\<close>

text \<open>
  \<^verbatim>\<open>
  def train(model, train_loader, optimizer, ceriation, epoch, amp=False):
      batch_time = AverageMeter('Time', ':6.2f')
      data_time = AverageMeter('Data', ':6.2f')
      losses = AverageMeter('Loss', ':6.2f')
      top1 = AverageMeter('Acc@1', ':6.2f')
      progress = ProgressMeter(len(train_loader), [batch_time, data_time, losses, top1],
                               prefix=getTime() + " Train Epoch: [{}]".format(epoch + 1))
      scaler = torch.cuda.amp.GradScaler()

      model.train()
      end = time.time()
      for i, (images, labels) in enumerate(train_loader):
          data_time.update(time.time() - end)
          images = images.cuda(non_blocking=True)
          labels = labels.cuda(non_blocking=True)

          if amp:
              with autocast():
                  logist = model(images)
                  loss = ceriation(logist, labels)

              optimizer.zero_grad()
              scaler.scale(loss).backward()
              scaler.step(optimizer)
              scaler.update()
          else:
              logist = model(images)
              loss = ceriation(logist, labels)

              optimizer.zero_grad()
              loss.backward()
              optimizer.step()

          acc1, acc5 = accuracy(logist, labels, topk=(1, 5))
          losses.update(loss.item(), images[0].size(0))
          top1.update(acc1[0], images[0].size(0))
          batch_time.update(time.time() - end)
          end = time.time()

      progress.display(0)
      return losses.avg, top1.avg.to("cpu", torch.float).item()
  \<close>
  The model, the optimizer, the gradient scaler, the loss function and the clock are
  collaborators outside this file. Their joint state is a value of an arbitrary type
  \<open>'w\<close>, and what each call does to it is a function the loops take as a parameter; a
  call that can fail returns \<open>error + _\<close>. Every call the loops make to a collaborator
  that bears on training is appended to the log \<open>calls\<close>, so that how often and in which
  order the loop calls them can be read off the final state.

  A batch is a pair of a tensor of examples and a tensor of labels. The examples are a
  list, each example the list of its entries along its own first dimension (for an
  image of shape channels x height x width, its channels); what an entry is does not
  matter. Moving a tensor to the device changes nothing that the loops read.
\<close>

datatype call =
    Model_train | Model_eval | Model_forward | Criterion
  | Zero_grad | Backward | Optimizer_step
  | Scaler_scale_backward | Scaler_step | Scaler_update

record ('w, 'px, 's) collaborators =
  model_train :: "'w \<Rightarrow> 'w"
  model_eval :: "'w \<Rightarrow> 'w"
  model_forward :: "'w \<Rightarrow> 'px list list \<Rightarrow> error + 's tensor2"
  ceriation :: "'s tensor2 \<Rightarrow> int list \<Rightarrow> error + real"
  zero_grad :: "'w \<Rightarrow> 'w"
  backward :: "'w \<Rightarrow> 'px list list \<Rightarrow> int list \<Rightarrow> error + 'w"
  optimizer_step :: "'w \<Rightarrow> error + 'w"
  scale_backward :: "'w \<Rightarrow> 'px list list \<Rightarrow> int list \<Rightarrow> error + 'w"
  scaler_step :: "'w \<Rightarrow> error + 'w"
  scaler_update :: "'w \<Rightarrow> 'w"
  clock :: "nat \<Rightarrow> real"
  getTime :: string

text \<open>
  \<open>clock c n\<close> is what the \<open>n\<close>-th reading of \<^verbatim>\<open>time.time()\<close> returns and \<open>getTime c\<close> the
  string \<^verbatim>\<open>getTime()\<close> returns at the one place each loop asks for it.

  What the loops print: a line of \<open>display\<close>, or the three values \<^verbatim>\<open>evaluate\<close> hands to
  \<^verbatim>\<open>print\<close>, the last of them a number.
\<close>

datatype line = Display_line string | Eval_line string string real

text \<open>
  The state of a run: the collaborators' state, the log of calls, the number of clock
  readings so far, the meters, what was printed, and the local variables \<^verbatim>\<open>end\<close>,
  \<^verbatim>\<open>logist\<close>, \<^verbatim>\<open>loss\<close> and \<^verbatim>\<open>acc1[0]\<close>.
\<close>

record ('w, 's) run_state =
  world :: 'w
  calls :: "call list"
  ticks :: nat
  batch_time :: AverageMeter
  data_time :: AverageMeter
  losses :: AverageMeter
  top1 :: AverageMeter
  printed :: "line list"
  end_t :: real
  logist :: "'s tensor2"
  loss :: real
  acc1 :: real

text \<open>
  A statement maps a state to the state after it and the exception it raised, if any;
  \<open>run\<close> executes statements in order and stops at the first exception.
\<close>

type_synonym ('w, 's) stmt = "('w, 's) run_state \<Rightarrow> error option \<times> ('w, 's) run_state"

fun run :: "('w, 's) stmt list \<Rightarrow> ('w, 's) stmt" where
  "run [] s = (None, s)"
| "run (f # fs) s = (case f s of (Some e, s') \<Rightarrow> (Some e, s') | (None, s') \<Rightarrow> run fs s')"

declare run.simps [simp del]

definition log_call :: "call \<Rightarrow> ('w, 's) run_state \<Rightarrow> ('w, 's) run_state" where
  "log_call k s = s\<lparr>calls := calls s @ [k]\<rparr>"

text \<open>\<^verbatim>\<open>time.time()\<close>: the next reading of the clock.\<close>

definition read_clock ::
  "('w, 'px, 's) collaborators \<Rightarrow> ('w, 's) run_state \<Rightarrow> real \<times> ('w, 's) run_state" where
  "read_clock c s = (clock c (ticks s), s\<lparr>ticks := Suc (ticks s)\<rparr>)"

text \<open>
  The four meters' updates. A failed update leaves the meter as the exception left it.
  \<^verbatim>\<open>top1\<close> accumulates tensors, on which a division by zero does not raise; its count
  equals that of \<^verbatim>\<open>losses\<close> at every update, and the update of \<^verbatim>\<open>losses\<close> comes first,
  so the raising branch of \<open>update_top1\<close> is never taken in these loops.
\<close>

definition update_data_time :: "real \<Rightarrow> real \<Rightarrow> ('w, 's) stmt" where
  "update_data_time v n s =
     (case update (data_time s) v n of
        Inl (e, m) \<Rightarrow> (Some e, s\<lparr>data_time := m\<rparr>)
      | Inr m \<Rightarrow> (None, s\<lparr>data_time := m\<rparr>))"

definition update_batch_time :: "real \<Rightarrow> real \<Rightarrow> ('w, 's) stmt" where
  "update_batch_time v n s =
     (case update (batch_time s) v n of
        Inl (e, m) \<Rightarrow> (Some e, s\<lparr>batch_time := m\<rparr>)
      | Inr m \<Rightarrow> (None, s\<lparr>batch_time := m\<rparr>))"

definition update_losses :: "real \<Rightarrow> real \<Rightarrow> ('w, 's) stmt" where
  "update_losses v n s =
     (case update (losses s) v n of
        Inl (e, m) \<Rightarrow> (Some e, s\<lparr>losses := m\<rparr>)
      | Inr m \<Rightarrow> (None, s\<lparr>losses := m\<rparr>))"

definition update_top1 :: "real \<Rightarrow> real \<Rightarrow> ('w, 's) stmt" where
  "update_top1 v n s =
     (case update (top1 s) v n of
        Inl (e, m) \<Rightarrow> (Some e, s\<lparr>top1 := m\<rparr>)
      | Inr m \<Rightarrow> (None, s\<lparr>top1 := m\<rparr>))"

text \<open>
  \<^verbatim>\<open>images[0].size(0)\<close>: the size of the first dimension of the first example; indexing
  a batch of no example raises.
\<close>

definition first_size :: "'px list list \<Rightarrow> error + nat" where
  "first_size images = (case images of [] \<Rightarrow> Inl IndexError | x # _ \<Rightarrow> Inr (length x))"

text \<open>The statements of the loop bodies, in the order of the source.\<close>

definition stmt_data_time :: "('w, 'px, 's) collaborators \<Rightarrow> ('w, 's) stmt" where
  "stmt_data_time c s =
     (case read_clock c s of (t, s1) \<Rightarrow> update_data_time (t - end_t s1) 1 s1)"

definition stmt_forward :: "('w, 'px, 's) collaborators \<Rightarrow> 'px list list \<Rightarrow> ('w, 's) stmt" where
  "stmt_forward c images s =
     (let s1 = log_call Model_forward s
      in case model_forward c (world s1) images of
           Inl e \<Rightarrow> (Some e, s1)
         | Inr y \<Rightarrow> (None, s1\<lparr>logist := y\<rparr>))"

definition stmt_loss :: "('w, 'px, 's) collaborators \<Rightarrow> int list \<Rightarrow> ('w, 's) stmt" where
  "stmt_loss c labels s =
     (let s1 = log_call Criterion s
      in case ceriation c (logist s1) labels of
           Inl e \<Rightarrow> (Some e, s1)
         | Inr l \<Rightarrow> (None, s1\<lparr>loss := l\<rparr>))"

definition stmt_zero_grad :: "('w, 'px, 's) collaborators \<Rightarrow> ('w, 's) stmt" where
  "stmt_zero_grad c s = (None, (log_call Zero_grad s)\<lparr>world := zero_grad c (world s)\<rparr>)"

definition stmt_backward ::
  "('w, 'px, 's) collaborators \<Rightarrow> 'px list list \<Rightarrow> int list \<Rightarrow> ('w, 's) stmt" where
  "stmt_backward c images labels s =
     (let s1 = log_call Backward s
      in case backward c (world s1) images labels of
           Inl e \<Rightarrow> (Some e, s1)
         | Inr w \<Rightarrow> (None, s1\<lparr>world := w\<rparr>))"

definition stmt_optimizer_step :: "('w, 'px, 's) collaborators \<Rightarrow> ('w, 's) stmt" where
  "stmt_optimizer_step c s =
     (let s1 = log_call Optimizer_step s
      in case optimizer_step c (world s1) of
           Inl e \<Rightarrow> (Some e, s1)
         | Inr w \<Rightarrow> (None, s1\<lparr>world := w\<rparr>))"

definition stmt_scale_backward ::
  "('w, 'px, 's) collaborators \<Rightarrow> 'px list list \<Rightarrow> int list \<Rightarrow> ('w, 's) stmt" where
  "stmt_scale_backward c images labels s =
     (let s1 = log_call Scaler_scale_backward s
      in case scale_backward c (world s1) images labels of
           Inl e \<Rightarrow> (Some e, s1)
         | Inr w \<Rightarrow> (None, s1\<lparr>world := w\<rparr>))"

definition stmt_scaler_step :: "('w, 'px, 's) collaborators \<Rightarrow> ('w, 's) stmt" where
  "stmt_scaler_step c s =
     (let s1 = log_call Scaler_step s
      in case scaler_step c (world s1) of
           Inl e \<Rightarrow> (Some e, s1)
         | Inr w \<Rightarrow> (None, s1\<lparr>world := w\<rparr>))"

definition stmt_scaler_update :: "('w, 'px, 's) collaborators \<Rightarrow> ('w, 's) stmt" where
  "stmt_scaler_update c s = (None, (log_call Scaler_update s)\<lparr>world := scaler_update c (world s)\<rparr>)"

text \<open>
  \<^verbatim>\<open>acc1, acc5 = accuracy(logist, labels, topk=(1, 5))\<close>: the call raises when the model
  has fewer than five classes; \<open>acc1\<close> keeps the entry of the one-element tensor
  \<^verbatim>\<open>acc1\<close>, which is what \<^verbatim>\<open>acc1[0]\<close> reads.
\<close>

definition stmt_accuracy :: "int list \<Rightarrow> ('w, 's::linorder) stmt" where
  "stmt_accuracy labels s =
     (case accuracy (logist s) labels [1, 5] of
        Inl e \<Rightarrow> (Some e, s)
      | Inr res \<Rightarrow>
          (case res of
             [a1, a5] \<Rightarrow> (None, s\<lparr>acc1 := a1\<rparr>)
           | _ \<Rightarrow> (Some ValueError, s)))"

definition stmt_losses :: "'px list list \<Rightarrow> ('w, 's) stmt" where
  "stmt_losses images s =
     (case first_size images of
        Inl e \<Rightarrow> (Some e, s)
      | Inr n \<Rightarrow> update_losses (loss s) (real n) s)"

definition stmt_top1 :: "'px list list \<Rightarrow> ('w, 's) stmt" where
  "stmt_top1 images s =
     (case first_size images of
        Inl e \<Rightarrow> (Some e, s)
      | Inr n \<Rightarrow> update_top1 (acc1 s) (real n) s)"

definition stmt_batch_time :: "('w, 'px, 's) collaborators \<Rightarrow> ('w, 's) stmt" where
  "stmt_batch_time c s =
     (case read_clock c s of (t, s1) \<Rightarrow> update_batch_time (t - end_t s1) 1 s1)"

definition stmt_end :: "('w, 'px, 's) collaborators \<Rightarrow> ('w, 's) stmt" where
  "stmt_end c s = (case read_clock c s of (t, s1) \<Rightarrow> (None, s1\<lparr>end_t := t\<rparr>))"

text \<open>The body of the loop of \<^verbatim>\<open>train\<close> for one batch.\<close>

definition train_batch ::
  "('w, 'px, 's::linorder) collaborators \<Rightarrow> bool \<Rightarrow> 'px list list \<times> int list \<Rightarrow> ('w, 's) stmt" where
  "train_batch c amp b =
     (case b of (images, labels) \<Rightarrow>
        run ([stmt_data_time c]
             @ (if amp
                then [stmt_forward c images, stmt_loss c labels,
                      stmt_zero_grad c, stmt_scale_backward c images labels,
                      stmt_scaler_step c, stmt_scaler_update c]
                else [stmt_forward c images, stmt_loss c labels,
                      stmt_zero_grad c, stmt_backward c images labels,
                      stmt_optimizer_step c])
             @ [stmt_accuracy labels, stmt_losses images, stmt_top1 images,
                stmt_batch_time c, stmt_end c]))"

definition train_loop ::
  "('w, 'px, 's::linorder) collaborators \<Rightarrow> bool \<Rightarrow> ('px list list \<times> int list) list
   \<Rightarrow> ('w, 's) stmt" where
  "train_loop c amp train_loader = run (map (train_batch c amp) train_loader)"

text \<open>
  The state in which \<^verbatim>\<open>train\<close> and \<^verbatim>\<open>evaluate\<close> start: the collaborators as the caller
  hands them over, fresh meters with the formats given, nothing logged or printed.
  \<^verbatim>\<open>evaluate\<close> creates no \<^verbatim>\<open>batch_time\<close> and \<^verbatim>\<open>data_time\<close>; its state carries two fresh
  meters it never touches. The local variables have no value yet; the state holds
  zeros for them, which no statement reads before assigning.
\<close>

definition init_state :: "'w \<Rightarrow> string \<Rightarrow> ('w, 's) run_state" where
  "init_state w f =
     \<lparr>world = w, calls = [], ticks = 0,
      batch_time = AverageMeter_init ''Time'' f,
      data_time = AverageMeter_init ''Data'' f,
      losses = AverageMeter_init ''Loss'' f,
      top1 = AverageMeter_init ''Acc@1'' f,
      printed = [], end_t = 0,
      logist = \<lparr>ncols = 0, rows = []\<rparr>, loss = 0, acc1 = 0\<rparr>"

text \<open>
  \<^verbatim>\<open>train\<close>. The \<^verbatim>\<open>ProgressMeter\<close> holds references to the four meters, so the line it
  prints after the loop shows them as the loop left them: \<open>display\<close> is given the
  reporter with the meters of the final state. \<^verbatim>\<open>top1.avg\<close> is a tensor once \<^verbatim>\<open>top1\<close> was
  updated and the Python integer 0 before; on an empty loader \<^verbatim>\<open>.to\<close> raises
  \<^verbatim>\<open>AttributeError\<close>. The result is the outcome together with the final state.
\<close>

definition train ::
  "('w, 'px, 's::linorder) collaborators \<Rightarrow> 'w \<Rightarrow> ('px list list \<times> int list) list \<Rightarrow> int \<Rightarrow> bool
   \<Rightarrow> (error + real \<times> real) \<times> ('w, 's) run_state" where
  "train c w train_loader epoch amp =
     (let s0 = init_state w '':6.2f''
      in case ProgressMeter_init (int (length train_loader))
                [batch_time s0, data_time s0, losses s0, top1 s0]
                (getTime c @ '' Train Epoch: ['' @ str_int (epoch + 1) @ '']'') of
           Inl e \<Rightarrow> (Inl e, s0)
         | Inr progress \<Rightarrow>
             (let s1 = (log_call Model_train s0)\<lparr>world := model_train c (world s0)\<rparr>
              in case stmt_end c s1 of
                   (Some e, s2) \<Rightarrow> (Inl e, s2)
                 | (None, s2) \<Rightarrow>
                     (case train_loop c amp train_loader s2 of
                        (Some e, s3) \<Rightarrow> (Inl e, s3)
                      | (None, s3) \<Rightarrow>
                          (case display (progress\<lparr>meters := [batch_time s3, data_time s3,
                                                               losses s3, top1 s3]\<rparr>) 0 of
                             Inl e \<Rightarrow> (Inl e, s3)
                           | Inr line \<Rightarrow>
                               (let s4 = s3\<lparr>printed := printed s3 @ [Display_line line]\<rparr>
                                in if train_loader = [] then (Inl AttributeError, s4)
                                   else (Inr (avg (losses s4), avg (top1 s4)), s4))))))"

text \<open>
  \<^verbatim>\<open>
  def evaluate(model, eva_loader, ceriation, prefix, ignore=-1):
      losses = AverageMeter('Loss', ':3.2f')
      top1 = AverageMeter('Acc@1', ':3.2f')
      model.eval()

      with torch.no_grad():
          for i, (images, labels) in enumerate(eva_loader):
              images = images.cuda()
              labels = labels.cuda()

              logist = model(images)

              loss = ceriation(logist, labels)
              acc1, acc5 = accuracy(logist, labels, topk=(1, 5))

              losses.update(loss.item(), images[0].size(0))
              top1.update(acc1[0], images[0].size(0))

      if prefix != "":
          print(getTime(), prefix, round(top1.avg.item(), 2))

      return losses.avg, top1.avg.to("cpu", torch.float).item()
  \<close>
  \<^verbatim>\<open>round(x, 2)\<close> is the multiple of 0.01 nearest to \<open>x\<close>, ties to the even one. On an
  empty loader \<^verbatim>\<open>top1.avg\<close> is the integer 0 and \<^verbatim>\<open>.item()\<close> or \<^verbatim>\<open>.to\<close> raises.
\<close>

definition eval_batch ::
  "('w, 'px, 's::linorder) collaborators \<Rightarrow> 'px list list \<times> int list \<Rightarrow> ('w, 's) stmt" where
  "eval_batch c b =
     (case b of (images, labels) \<Rightarrow>
        run [stmt_forward c images, stmt_loss c labels, stmt_accuracy labels,
             stmt_losses images, stmt_top1 images])"

definition eval_loop ::
  "('w, 'px, 's::linorder) collaborators \<Rightarrow> ('px list list \<times> int list) list \<Rightarrow> ('w, 's) stmt" where
  "eval_loop c eva_loader = run (map (eval_batch c) eva_loader)"

definition py_round2 :: "real \<Rightarrow> real" where
  "py_round2 x = real_of_int (round_half_even (x * 100)) / 100"

definition evaluate ::
  "('w, 'px, 's::linorder) collaborators \<Rightarrow> 'w \<Rightarrow> ('px list list \<times> int list) list \<Rightarrow> string \<Rightarrow> int
   \<Rightarrow> (error + real \<times> real) \<times> ('w, 's) run_state" where
  "evaluate c w eva_loader pfx ignore =
     (let s0 = init_state w '':3.2f'';
          s1 = (log_call Model_eval s0)\<lparr>world := model_eval c (world s0)\<rparr>
      in case eval_loop c eva_loader s1 of
           (Some e, s2) \<Rightarrow> (Inl e, s2)
         | (None, s2) \<Rightarrow>
             if pfx \<noteq> [] then
               (if eva_loader = [] then (Inl AttributeError, s2)
                else (let s3 = s2\<lparr>printed := printed s2
                                      @ [Eval_line (getTime c) pfx (py_round2 (avg (top1 s2)))]\<rparr>
                      in (Inr (avg (losses s3), avg (top1 s3)), s3)))
             else if eva_loader = [] then (Inl AttributeError, s2)
             else (Inr (avg (losses s2), avg (top1 s2)), s2))"

text \<open>
  The parameter updates a log records: \<^verbatim>\<open>optimizer.step()\<close> on the plain path and
  \<^verbatim>\<open>scaler.step(optimizer)\<close>, which steps the optimizer for the loop, on the
  mixed-precision path.
\<close>

definition is_step :: "call \<Rightarrow> bool" where
  "is_step k = (k = Optimizer_step \<or> k = Scaler_step)"

definition step_calls :: "call list \<Rightarrow> nat" where
  "step_calls ks = length (filter is_step ks)"

text \<open>
  The calls one pass of a loop body makes when it completes, in their order.
\<close>

definition batch_calls :: "bool \<Rightarrow> call list" where
  "batch_calls amp =
     (if amp then [Model_forward, Criterion, Zero_grad, Scaler_scale_backward, Scaler_step, Scaler_update]
      else [Model_forward, Criterion, Zero_grad, Backward, Optimizer_step])"

definition eval_calls :: "call list" where
  "eval_calls = [Model_forward, Criterion]"

text \<open>
  A proof device: the statement \<open>f\<close> appends to the log an initial part of \<open>ks\<close>, and all
  of \<open>ks\<close> when it raises nothing.
\<close>

definition logs :: "call list \<Rightarrow> ('w, 's) stmt \<Rightarrow> bool" where
  "logs ks f =
     (\<forall>s. (\<exists>ks' zs. calls (snd (f s)) = calls s @ ks' \<and> ks = ks' @ zs)
          \<and> (fst (f s) = None \<longrightarrow> calls (snd (f s)) = calls s @ ks))"

text \<open>
  Collaborators and a loader to run the loops on. The model scores class \<open>j\<close> of \<open>C\<close>
  classes with \<open>C - 1 - j\<close>, whatever the image, so that class 0 ranks first; the loss is
  the sum of the labels; the collaborators' state counts the parameter updates; the
  clock reads 0, 1, 2, ... The loader delivers a batch of two examples and a batch of
  one, each example with three channels.
\<close>

definition demo_collaborators :: "nat \<Rightarrow> (nat, unit, int) collaborators" where
  "demo_collaborators C =
     \<lparr>model_train = (\<lambda>w. w), model_eval = (\<lambda>w. w),
      model_forward = (\<lambda>w images. Inr \<lparr>ncols = C, rows = map (\<lambda>_. rev (map int [0..<C])) images\<rparr>),
      ceriation = (\<lambda>y labels. Inr (real_of_int (sum_list labels))),
      zero_grad = (\<lambda>w. w), backward = (\<lambda>w images labels. Inr w),
      optimizer_step = (\<lambda>w. Inr (Suc w)),
      scale_backward = (\<lambda>w images labels. Inr w),
      scaler_step = (\<lambda>w. Inr (Suc w)), scaler_update = (\<lambda>w. w),
      clock = real, getTime = ''12:00:00''\<rparr>"

definition demo_loader :: "(unit list list \<times> int list) list" where
  "demo_loader = [([[(), (), ()], [(), (), ()]], [0, 1]), ([[(), (), ()]], [4])]"

section \<open>Properties\<close>

subsection \<open>Rounding\<close>

lemma rhe_bounds: "\<bar>real_of_int (round_half_even x) - x\<bar> \<le> 1 / 2"
  unfolding round_half_even_def Let_def by (auto simp: abs_if) linarith+

lemma rhe_of_int [simp]: "round_half_even (of_int n) = n"
  by (simp add: round_half_even_def)

lemma rhe_mono: assumes "x \<le> y" shows "round_half_even x \<le> round_half_even y"
proof (cases "\<lfloor>x\<rfloor> = \<lfloor>y\<rfloor>")
  case True
  then show ?thesis using assms unfolding round_half_even_def Let_def by auto
next
  case False
  with assms have "\<lfloor>x\<rfloor> < \<lfloor>y\<rfloor>" by (simp add: floor_mono order.not_eq_order_implies_strict)
  then have "\<lfloor>x\<rfloor> + 1 \<le> \<lfloor>y\<rfloor>" by simp
  moreover have "round_half_even x \<le> \<lfloor>x\<rfloor> + 1" unfolding round_half_even_def Let_def by auto
  moreover have "\<lfloor>y\<rfloor> \<le> round_half_even y" unfolding round_half_even_def Let_def by auto
  ultimately show ?thesis by linarith
qed

lemma rhe_ge: "of_int n \<le> x \<Longrightarrow> n \<le> round_half_even x"
  using rhe_mono [of "of_int n" x] by simp

lemma rhe_le: "x \<le> of_int n \<Longrightarrow> round_half_even x \<le> n"
  using rhe_mono [of x "of_int n"] by simp

lemma powi_nat: "0 \<le> n \<Longrightarrow> (2::real) powi n = 2 ^ nat n"
  by (rule power_int_nonneg_exp)

lemma powi_neg: "0 \<le> n \<Longrightarrow> (2::real) powi (- n) = 1 / 2 ^ nat n"
  by (simp add: power_int_minus_divide power_int_nonneg_exp)

lemma powi_ulp_top: "(2::real) ^ n * 2 powi (e - int n + 1) = 2 powi (e + 1)"
proof -
  have "(2::real) ^ n * 2 powi (e - int n + 1) = 2 powi (int n) * 2 powi (e - int n + 1)" by simp
  also have "\<dots> = 2 powi (int n + (e - int n + 1))" by (rule power_int_add [symmetric]) simp
  finally show ?thesis by simp
qed

lemma powi_ulp_bot: "0 < n \<Longrightarrow> (2::real) ^ (n - 1) * 2 powi (e - int n + 1) = 2 powi e"
proof -
  assume n: "0 < n"
  have "(2::real) ^ (n - 1) * 2 powi (e - int n + 1)
        = 2 powi (int (n - 1)) * 2 powi (e - int n + 1)" by simp
  also have "\<dots> = 2 powi (int (n - 1) + (e - int n + 1))" by (rule power_int_add [symmetric]) simp
  also have "int (n - 1) + (e - int n + 1) = e" using n by simp
  finally show ?thesis .
qed

lemma powi_bracket_unique:
  assumes "2 powi a \<le> (x::real)" "x < 2 powi (b + 1)"
  shows "a \<le> b"
proof (rule ccontr)
  assume "\<not> a \<le> b"
  then have "b + 1 \<le> a" by simp
  then have "(2::real) powi (b + 1) \<le> 2 powi a" by (intro power_int_increasing) simp_all
  with assms show False by linarith
qed

lemma expo_bounds:
  assumes "x \<noteq> 0"
  shows "2 powi (expo x) \<le> \<bar>x\<bar>" "\<bar>x\<bar> < 2 powi (expo x + 1)"
proof -
  let ?a = "\<bar>x\<bar>"
  have pos: "0 < ?a" using assms by simp
  show "2 powi (expo x) \<le> \<bar>x\<bar>"
  proof (cases "1 \<le> ?a")
    case True
    then have m: "0 < \<lfloor>?a\<rfloor>" by linarith
    from bitlen_bounds [OF m] have "2 ^ nat (bitlen \<lfloor>?a\<rfloor> - 1) \<le> \<lfloor>?a\<rfloor>" by simp
    then have "real_of_int (2 ^ nat (bitlen \<lfloor>?a\<rfloor> - 1)) \<le> ?a" by (simp only: le_floor_iff)
    then have "(2::real) ^ nat (bitlen \<lfloor>?a\<rfloor> - 1) \<le> ?a" by simp
    moreover from m have "1 \<le> bitlen \<lfloor>?a\<rfloor>" by (auto simp: bitlen_alt_def)
    ultimately show ?thesis using True by (simp add: expo_def powi_nat)
  next
    case False
    then have lt: "?a < 1" by simp
    let ?m = "\<lceil>1 / ?a\<rceil> - 1"
    have "1 < 1 / ?a" using pos lt by (simp add: field_simps)
    then have m: "0 < ?m" by linarith
    from bitlen_bounds [OF m] have "?m < 2 ^ nat (bitlen ?m)" by simp
    then have "\<lceil>1 / ?a\<rceil> \<le> 2 ^ nat (bitlen ?m)" by linarith
    then have "1 / ?a \<le> real_of_int (2 ^ nat (bitlen ?m))" by (simp add: ceiling_le_iff)
    then have "1 / ?a \<le> 2 ^ nat (bitlen ?m)" by simp
    then have "1 / 2 ^ nat (bitlen ?m) \<le> ?a" using pos by (simp add: field_simps)
    moreover have "0 \<le> bitlen ?m" by (rule bitlen_nonneg)
    ultimately show ?thesis using False
      by (simp add: expo_def powi_neg)
  qed
  show "\<bar>x\<bar> < 2 powi (expo x + 1)"
  proof (cases "1 \<le> ?a")
    case True
    then have m: "0 < \<lfloor>?a\<rfloor>" by linarith
    from bitlen_bounds [OF m] have "\<lfloor>?a\<rfloor> < 2 ^ nat (bitlen \<lfloor>?a\<rfloor>)" by simp
    then have "?a < real_of_int (2 ^ nat (bitlen \<lfloor>?a\<rfloor>))" by (simp add: floor_less_iff)
    then have "?a < 2 ^ nat (bitlen \<lfloor>?a\<rfloor>)" by simp
    moreover have "0 \<le> bitlen \<lfloor>?a\<rfloor>" by (rule bitlen_nonneg)
    ultimately show ?thesis using True by (simp add: expo_def powi_nat)
  next
    case False
    then have lt: "?a < 1" by simp
    let ?m = "\<lceil>1 / ?a\<rceil> - 1"
    have "1 < 1 / ?a" using pos lt by (simp add: field_simps)
    then have m: "0 < ?m" by linarith
    then have b1: "1 \<le> bitlen ?m" by (auto simp: bitlen_alt_def)
    from bitlen_bounds [OF m] have "2 ^ nat (bitlen ?m - 1) \<le> ?m" by simp
    then have "real_of_int (2 ^ nat (bitlen ?m - 1)) \<le> real_of_int ?m" by linarith
    also have "real_of_int ?m < 1 / ?a" by linarith
    finally have "2 ^ nat (bitlen ?m - 1) < 1 / ?a" by simp
    then have "?a < 1 / 2 ^ nat (bitlen ?m - 1)" using pos by (simp add: field_simps)
    moreover have "- bitlen ?m + 1 = - (bitlen ?m - 1)" by simp
    moreover have "(2::real) powi (- (bitlen ?m - 1)) = 1 / 2 ^ nat (bitlen ?m - 1)"
      using b1 by (intro powi_neg) simp
    ultimately show ?thesis using False by (simp add: expo_def)
  qed
qed

lemma expo_eq:
  assumes "2 powi e \<le> \<bar>x\<bar>" "\<bar>x\<bar> < 2 powi (e + 1)"
  shows "expo x = e"
proof -
  have "(0::real) < 2 powi e" by (rule zero_less_power_int) simp
  with assms(1) have "0 < \<bar>x\<bar>" by linarith
  then have nz: "x \<noteq> 0" by auto
  note b = expo_bounds [OF nz]
  from powi_bracket_unique [OF assms(1) b(2)] powi_bracket_unique [OF b(1) assms(2)]
  show ?thesis by simp
qed

lemma expo_mono:
  assumes "0 < \<bar>x\<bar>" "\<bar>x\<bar> \<le> \<bar>y\<bar>"
  shows "expo x \<le> expo y"
proof -
  from assms have nz: "x \<noteq> 0" "y \<noteq> 0" by auto
  have "2 powi (expo x) \<le> \<bar>y\<bar>" using expo_bounds(1) [OF nz(1)] assms by linarith
  from powi_bracket_unique [OF this expo_bounds(2) [OF nz(2)]] show ?thesis .
qed

lemma rnd_eval:
  assumes "2 powi e \<le> \<bar>x\<bar>" "\<bar>x\<bar> < 2 powi (e + 1)"
    and "u = 2 powi (max e emin - int p + 1)" "round_half_even (x / u) = n"
  shows "rnd p emin x = real_of_int n * u"
proof -
  have "(0::real) < 2 powi e" by (rule zero_less_power_int) simp
  with assms(1) have "0 < \<bar>x\<bar>" by linarith
  then have nz: "x \<noteq> 0" by auto
  from expo_eq [OF assms(1,2)] nz assms(3,4) show ?thesis by (simp add: rnd_def Let_def)
qed

lemma rnd_zero [simp]: "rnd p emin 0 = 0"
  by (simp add: rnd_def)

lemma rhe_nonneg: "0 \<le> x \<Longrightarrow> 0 \<le> round_half_even x"
  using rhe_ge [of 0 x] by simp

lemma rnd_nonneg:
  assumes "0 \<le> x"
  shows "0 \<le> rnd p emin x"
proof (cases "x = 0")
  case True
  then show ?thesis by simp
next
  case False
  let ?u = "(2::real) powi (max (expo x) emin - int p + 1)"
  have u: "0 < ?u" by (rule zero_less_power_int) simp
  with assms have "0 \<le> x / ?u" by simp
  then have "0 \<le> round_half_even (x / ?u)" by (rule rhe_nonneg)
  with u False show ?thesis by (simp add: rnd_def Let_def)
qed

text \<open>Rounding is monotone on the non-negative numbers.\<close>

lemma rnd_mono:
  assumes "0 \<le> x" "x \<le> y" "0 < p"
  shows "rnd p emin x \<le> rnd p emin y"
proof (cases "x = 0")
  case True
  with assms show ?thesis by (simp add: rnd_nonneg)
next
  case False
  with assms have x: "0 < x" and y: "0 < y" by simp_all
  then have nz: "x \<noteq> 0" "y \<noteq> 0" by simp_all
  let ?ex = "max (expo x) emin" and ?ey = "max (expo y) emin"
  let ?ux = "(2::real) powi (?ex - int p + 1)" and ?uy = "(2::real) powi (?ey - int p + 1)"
  have ux: "0 < ?ux" and uy: "0 < ?uy" by (rule zero_less_power_int, simp)+
  have rx: "rnd p emin x = real_of_int (round_half_even (x / ?ux)) * ?ux"
    and ry: "rnd p emin y = real_of_int (round_half_even (y / ?uy)) * ?uy"
    using nz by (simp_all add: rnd_def Let_def)
  have "expo x \<le> expo y" using x assms(2) by (intro expo_mono) simp_all
  then have le: "?ex \<le> ?ey" by simp
  show ?thesis
  proof (cases "?ex = ?ey")
    case True
    have "x / ?ux \<le> y / ?ux" using assms(2) ux by (simp add: divide_right_mono)
    then have "round_half_even (x / ?ux) \<le> round_half_even (y / ?ux)" by (rule rhe_mono)
    then have "real_of_int (round_half_even (x / ?ux)) * ?ux
               \<le> real_of_int (round_half_even (y / ?ux)) * ?ux"
      using ux by (simp add: mult_right_mono)
    with rx ry True show ?thesis by simp
  next
    case False
    from le False have lt: "?ex < ?ey" by (rule le_neq_trans)
    then have ey: "?ey = expo y" by arith
    \<comment> \<open>the rounded \<open>x\<close> stays within its binade, closed above\<close>
    have "\<bar>x\<bar> < 2 powi (expo x + 1)" by (rule expo_bounds(2) [OF nz(1)])
    moreover have "(2::real) powi (expo x + 1) \<le> 2 powi (?ex + 1)"
      by (intro power_int_increasing) simp_all
    ultimately have "x \<le> 2 powi (?ex + 1)" using x by simp
    also have "(2::real) powi (?ex + 1) = 2 ^ p * ?ux" by (rule powi_ulp_top [symmetric])
    finally have "x / ?ux \<le> real_of_int (2 ^ p)" using ux by (simp add: field_simps)
    then have "round_half_even (x / ?ux) \<le> 2 ^ p" by (rule rhe_le)
    then have "real_of_int (round_half_even (x / ?ux)) \<le> 2 ^ p"
      by (metis of_int_le_iff of_int_numeral of_int_power)
    then have "rnd p emin x \<le> 2 ^ p * ?ux" using ux rx by (simp add: mult_right_mono)
    also have "2 ^ p * ?ux = 2 powi (?ex + 1)" by (rule powi_ulp_top)
    also have "\<dots> \<le> 2 powi ?ey"
    proof -
      from lt have "?ex + 1 \<le> ?ey" by linarith
      then show ?thesis by (intro power_int_increasing) simp_all
    qed
    finally have 1: "rnd p emin x \<le> 2 powi ?ey" .
    \<comment> \<open>the rounded \<open>y\<close> stays within its binade, closed below\<close>
    have "2 powi ?ey \<le> \<bar>y\<bar>" using expo_bounds(1) [OF nz(2)] ey by simp
    then have "2 powi ?ey \<le> y" using y by simp
    moreover have "(2::real) powi ?ey = 2 ^ (p - 1) * ?uy"
      by (rule powi_ulp_bot [OF assms(3), symmetric])
    ultimately have "real_of_int (2 ^ (p - 1)) \<le> y / ?uy" using uy by (simp add: field_simps)
    then have "2 ^ (p - 1) \<le> round_half_even (y / ?uy)" by (rule rhe_ge)
    then have "2 ^ (p - 1) \<le> real_of_int (round_half_even (y / ?uy))"
      by (metis of_int_le_iff of_int_numeral of_int_power)
    then have "2 ^ (p - 1) * ?uy \<le> rnd p emin y" using uy ry by (simp add: mult_right_mono)
    also have "2 ^ (p - 1) * ?uy = 2 powi ?ey" by (rule powi_ulp_bot [OF assms(3)])
    finally have 2: "2 powi ?ey \<le> rnd p emin y" .
    from 1 2 show ?thesis by linarith
  qed
qed

text \<open>The rounding error is at most half a unit in the last place.\<close>

lemma rnd_error:
  assumes "2 powi emin \<le> \<bar>x\<bar>"
  shows "\<bar>rnd p emin x - x\<bar> \<le> \<bar>x\<bar> / 2 ^ p"
proof -
  have "(0::real) < 2 powi emin" by (rule zero_less_power_int) simp
  with assms have "0 < \<bar>x\<bar>" by linarith
  then have nz: "x \<noteq> 0" by auto
  have "emin \<le> expo x" by (rule powi_bracket_unique [OF assms expo_bounds(2) [OF nz]])
  then have e: "max (expo x) emin = expo x" by simp
  let ?u = "(2::real) powi (expo x - int p + 1)"
  have u: "0 < ?u" by (rule zero_less_power_int) simp
  have r: "rnd p emin x = real_of_int (round_half_even (x / ?u)) * ?u"
    using nz e by (simp add: rnd_def Let_def)
  have "\<bar>real_of_int (round_half_even (x / ?u)) - x / ?u\<bar> \<le> 1 / 2" by (rule rhe_bounds)
  then have "\<bar>real_of_int (round_half_even (x / ?u)) - x / ?u\<bar> * ?u \<le> 1 / 2 * ?u"
    using u by (intro mult_right_mono) simp_all
  moreover have "\<bar>real_of_int (round_half_even (x / ?u)) - x / ?u\<bar> * ?u = \<bar>rnd p emin x - x\<bar>"
  proof -
    have "\<bar>real_of_int (round_half_even (x / ?u)) - x / ?u\<bar> * ?u
          = \<bar>(real_of_int (round_half_even (x / ?u)) - x / ?u) * ?u\<bar>"
      using u by (simp add: abs_mult)
    also have "(real_of_int (round_half_even (x / ?u)) - x / ?u) * ?u = rnd p emin x - x"
      using u r by (simp add: field_simps)
    finally show ?thesis .
  qed
  moreover have "1 / 2 * ?u = 2 powi (expo x) / 2 ^ p"
  proof -
    have "?u = 2 powi (expo x) / 2 powi (int p) * 2"
      by (simp add: power_int_add power_int_diff)
    then show ?thesis by simp
  qed
  moreover have "2 powi (expo x) / 2 ^ p \<le> \<bar>x\<bar> / 2 ^ p"
    using expo_bounds(1) [OF nz] by (simp add: divide_right_mono)
  ultimately show ?thesis by linarith
qed

text \<open>A number with at most \<open>p\<close> significant bits above the least exponent is not changed.\<close>

lemma rnd_exact:
  assumes "\<bar>m\<bar> \<le> 2 ^ p" "emin - int p + 1 \<le> k" "0 < p"
  shows "rnd p emin (real_of_int m * 2 powi k) = real_of_int m * 2 powi k"
proof (cases "m = 0")
  case True
  then show ?thesis by simp
next
  case False
  let ?x = "real_of_int m * 2 powi k"
  have k: "(0::real) < 2 powi k" by (rule zero_less_power_int) simp
  have nz: "?x \<noteq> 0" using False by simp
  let ?e = "max (expo ?x) emin - int p + 1"
  let ?u = "(2::real) powi ?e"
  have u: "0 < ?u" by (rule zero_less_power_int) simp
  have r: "rnd p emin ?x = real_of_int (round_half_even (?x / ?u)) * ?u"
    using nz by (simp add: rnd_def Let_def)
  have "?e \<le> k \<or> \<bar>m\<bar> = 2 ^ p \<and> ?e = k + 1"
  proof (cases "\<bar>m\<bar> = 2 ^ p")
    case True
    have "\<bar>?x\<bar> = 2 powi (int p + k)"
      using True by (simp add: abs_mult power_int_add flip: of_int_abs)
    moreover have "(2::real) powi (int p + k) < 2 powi (int p + k + 1)"
      by (intro power_int_strict_increasing) simp_all
    ultimately have "expo ?x = int p + k" by (intro expo_eq) simp_all
    then show ?thesis using True assms(2) by (simp add: max_def)
  next
    case False
    with assms(1) have "\<bar>m\<bar> < 2 ^ p" by simp
    then have "real_of_int \<bar>m\<bar> < 2 ^ p" by (metis of_int_less_iff of_int_numeral of_int_power)
    then have "\<bar>?x\<bar> < 2 ^ p * 2 powi k" using k by (simp add: abs_mult)
    also have "\<dots> = 2 powi (int p + k - 1 + 1)" by (simp add: power_int_add)
    finally have "expo ?x \<le> int p + k - 1" by (rule powi_bracket_unique [OF expo_bounds(1) [OF nz]])
    then show ?thesis using assms(2) by (simp add: max_def)
  qed
  then have "\<exists>n. ?x / ?u = real_of_int n"
  proof (elim disjE conjE)
    assume le: "?e \<le> k"
    have "?x / ?u = real_of_int m * 2 powi (k - ?e)"
      by (simp add: power_int_diff)
    also have "(2::real) powi (k - ?e) = 2 ^ nat (k - ?e)" using le by (intro powi_nat) simp
    finally have "?x / ?u = real_of_int (m * 2 ^ nat (k - ?e))" by simp
    then show ?thesis ..
  next
    assume m: "\<bar>m\<bar> = 2 ^ p" and e: "?e = k + 1"
    from assms(3) have "(2::int) ^ p = 2 * 2 ^ (p - 1)" by (cases p) simp_all
    with m have "m = 2 * 2 ^ (p - 1) \<or> m = - (2 * 2 ^ (p - 1))" by (simp add: abs_if split: if_splits)
    then obtain q where q: "m = 2 * q" by auto
    have "?u = 2 powi k * 2" using e by (simp add: power_int_add)
    then have "?x / ?u = real_of_int q" using k q by (simp add: field_simps)
    then show ?thesis ..
  qed
  then obtain n where n: "?x / ?u = real_of_int n" ..
  then have "real_of_int (round_half_even (?x / ?u)) * ?u = ?x / ?u * ?u" by simp
  also have "\<dots> = ?x" using u by simp
  finally show ?thesis using r by simp
qed

lemma rnd_of_int:
  assumes "\<bar>i\<bar> \<le> 2 ^ p" "emin - int p + 1 \<le> 0" "0 < p"
  shows "rnd p emin (real_of_int i) = real_of_int i"
  using rnd_exact [of i p emin 0] assms by simp

lemma rhe_eval:
  assumes "real_of_int n - 1 / 2 < x" "x < real_of_int n + 1 / 2"
  shows "round_half_even x = n"
proof -
  have "\<bar>real_of_int (round_half_even x) - x\<bar> \<le> 1 / 2" by (rule rhe_bounds)
  with assms have "real_of_int (round_half_even x) < real_of_int n + 1"
    "real_of_int n - 1 < real_of_int (round_half_even x)" by linarith+
  then have "round_half_even x < n + 1" "n - 1 < round_half_even x" by linarith+
  then show ?thesis by simp
qed

lemma rnd32_of_int: "\<bar>i\<bar> \<le> 2 ^ 24 \<Longrightarrow> rnd32 (real_of_int i) = real_of_int i"
  using rnd_of_int [of i 24 "- 126"] by (simp add: rnd32_def)

lemma rnd64_of_int: "\<bar>i\<bar> \<le> 2 ^ 53 \<Longrightarrow> rnd64 (real_of_int i) = real_of_int i"
  using rnd_of_int [of i 53 "- 1022"] by (simp add: rnd64_def)

lemma rnd32_of_nat: "n \<le> 2 ^ 24 \<Longrightarrow> rnd32 (real n) = real n"
  using rnd32_of_int [of "int n"] by simp

lemma rnd64_of_nat: "n \<le> 2 ^ 53 \<Longrightarrow> rnd64 (real n) = real n"
  using rnd64_of_int [of "int n"] by simp

lemma rnd32_numeral: "numeral w \<le> (2 ^ 24 :: int) \<Longrightarrow> rnd32 (numeral w) = numeral w"
  using rnd32_of_int [of "numeral w"] by simp

lemma rnd64_numeral: "numeral w \<le> (2 ^ 53 :: int) \<Longrightarrow> rnd64 (numeral w) = numeral w"
  using rnd64_of_int [of "numeral w"] by simp

lemma rnd32_0 [simp]: "rnd32 0 = 0"
  by (simp add: rnd32_def)

lemma rnd64_0 [simp]: "rnd64 0 = 0"
  by (simp add: rnd64_def)

lemma rnd32_1 [simp]: "rnd32 1 = 1"
  using rnd32_of_int [of 1] by simp

lemma rnd64_1 [simp]: "rnd64 1 = 1"
  using rnd64_of_int [of 1] by simp

lemma rnd32_nonneg: "0 \<le> x \<Longrightarrow> 0 \<le> rnd32 x"
  by (simp add: rnd32_def rnd_nonneg)

lemma rnd64_nonneg: "0 \<le> x \<Longrightarrow> 0 \<le> rnd64 x"
  by (simp add: rnd64_def rnd_nonneg)

lemma rnd32_mono: "0 \<le> x \<Longrightarrow> x \<le> y \<Longrightarrow> rnd32 x \<le> rnd32 y"
  by (simp add: rnd32_def rnd_mono)

lemma rnd64_mono: "0 \<le> x \<Longrightarrow> x \<le> y \<Longrightarrow> rnd64 x \<le> rnd64 y"
  by (simp add: rnd64_def rnd_mono)

lemma scale_nonneg: "0 \<le> rnd32 (rnd64 (100 / rnd64 (real N)))"
proof -
  have "0 \<le> rnd64 (real N)" by (rule rnd64_nonneg) simp
  then have "0 \<le> 100 / rnd64 (real N)" by simp
  then have "0 \<le> rnd64 (100 / rnd64 (real N))" by (rule rnd64_nonneg)
  then show ?thesis by (rule rnd32_nonneg)
qed

lemma rnd_rel:
  assumes "2 powi emin \<le> x"
  shows "x * (1 - 1 / 2 ^ p) \<le> rnd p emin x" "rnd p emin x \<le> x * (1 + 1 / 2 ^ p)"
proof -
  have "(0::real) < 2 powi emin" by (rule zero_less_power_int) simp
  with assms have x: "0 < x" by linarith
  with assms have "2 powi emin \<le> \<bar>x\<bar>" by simp
  from rnd_error [OF this, of p] x have "\<bar>rnd p emin x - x\<bar> \<le> x / 2 ^ p" by simp
  then show "x * (1 - 1 / 2 ^ p) \<le> rnd p emin x" "rnd p emin x \<le> x * (1 + 1 / 2 ^ p)"
    by (simp_all add: algebra_simps abs_le_iff)
qed

lemma rnd32_rel:
  assumes "1 / 2 ^ 126 \<le> x"
  shows "x * (1 - 1 / 2 ^ 24) \<le> rnd32 x" "rnd32 x \<le> x * (1 + 1 / 2 ^ 24)"
  using rnd_rel [of "- 126" x 24] assms by (simp_all add: rnd32_def power_int_minus_divide)

lemma rnd64_rel:
  assumes "1 / 2 ^ 1022 \<le> x"
  shows "x * (1 - 1 / 2 ^ 53) \<le> rnd64 x" "rnd64 x \<le> x * (1 + 1 / 2 ^ 53)"
  using rnd_rel [of "- 1022" x 53] assms by (simp_all add: rnd64_def power_int_minus_divide)

lemma half_le:
  assumes "b \<le> x" "x * (1 - t) \<le> y" "0 \<le> b" "t \<le> 1 / 2"
  shows "b / 2 \<le> (y::real)"
proof -
  from assms have "0 \<le> x" by simp
  then have "x * (1 / 2) \<le> x * (1 - t)" using assms(4) by (intro mult_left_mono) simp_all
  with assms(1,2) show ?thesis by simp
qed

lemma float_percent_bounds:
  assumes N: "0 < N" "N < 2 ^ 63" and h: "0 < h"
  shows "100 * real h / real N * (1 - 1 / 2 ^ 22) \<le> float_percent h N"
    and "float_percent h N \<le> 100 * real h / real N * (1 + 1 / 2 ^ 22)"
proof -
  define e :: real where "e = 1 / 2 ^ 24"
  define g :: real where "g = 1 / 2 ^ 53"
  define X where "X = 100 / real N"
  define n' where "n' = rnd64 (real N)"
  define q where "q = 100 / n'"
  define d where "d = rnd64 q"
  define c where "c = rnd32 d"
  define a where "a = rnd32 (real h)"
  define r where "r = rnd32 (a * c)"
  have eg: "0 < e" "e < 1 / 2" "0 < g" "g < 1 / 2" by (simp_all add: e_def g_def)
  have Nr: "1 \<le> real N" "real N < 2 ^ 63" using N by simp_all
  have X: "1 / 2 ^ 57 < X"
  proof -
    have "real N * 1 < 2 ^ 57 * 100" using Nr by simp
    then show ?thesis unfolding X_def using Nr by (simp add: field_simps)
  qed
  then have X0: "0 < X" by (simp add: less_trans [rotated])
  \<comment> \<open>the batch size as a float\<close>
  have "1 / 2 ^ 1022 \<le> real N" using Nr(1) by (simp add: order_trans [rotated])
  from rnd64_rel [OF this]
  have n': "real N * (1 - g) \<le> n'" "n' \<le> real N * (1 + g)" by (simp_all add: n'_def g_def)
  have n'0: "0 < n'"
  proof -
    have "0 < real N * (1 - g)" using Nr eg by simp
    with n'(1) show ?thesis by linarith
  qed
  \<comment> \<open>the quotient\<close>
  have q: "X / (1 + g) \<le> q" "q \<le> X / (1 - g)"
  proof -
    have "100 / (real N * (1 + g)) \<le> 100 / n'"
      using n'(2) n'0 by (intro divide_left_mono) simp_all
    then show "X / (1 + g) \<le> q" by (simp add: X_def q_def)
    have "0 < real N * (1 - g)" using Nr eg by simp
    then have "100 / n' \<le> 100 / (real N * (1 - g))"
      using n'(1) n'0 by (intro divide_left_mono) simp_all
    then show "q \<le> X / (1 - g)" by (simp add: X_def q_def)
  qed
  have q0: "1 / 2 ^ 58 \<le> q"
  proof -
    have "X / 2 \<le> X / (1 + g)" using X0 eg by (intro divide_left_mono) simp_all
    with q(1) X show ?thesis by simp
  qed
  \<comment> \<open>the quotient as a float, and as a float32\<close>
  have "1 / 2 ^ 1022 \<le> q" using q0 by (rule order_trans [rotated]) simp
  from rnd64_rel [OF this] have d: "q * (1 - g) \<le> d" "d \<le> q * (1 + g)"
    by (simp_all add: d_def g_def)
  have d0: "1 / 2 ^ 59 \<le> d"
    using half_le [OF q0 d(1)] eg by simp
  have "1 / 2 ^ 126 \<le> d" using d0 by (rule order_trans [rotated]) simp
  from rnd32_rel [OF this] have c: "d * (1 - e) \<le> c" "c \<le> d * (1 + e)"
    by (simp_all add: c_def e_def)
  have c0: "1 / 2 ^ 60 \<le> c"
    using half_le [OF d0 c(1)] eg by simp
  \<comment> \<open>the number of hits as a float32\<close>
  have hr: "1 \<le> real h" using h by simp
  then have "1 / 2 ^ 126 \<le> real h" by (rule order_trans [rotated]) simp
  from rnd32_rel [OF this] have a: "real h * (1 - e) \<le> a" "a \<le> real h * (1 + e)"
    by (simp_all add: a_def e_def)
  have a0: "1 / 2 \<le> a"
    using half_le [OF hr a(1)] eg by simp
  \<comment> \<open>the product\<close>
  have ac0: "1 / 2 ^ 61 \<le> a * c"
  proof -
    have "(1 / 2) * (1 / 2 ^ 60) \<le> a * c" using a0 c0 by (intro mult_mono) simp_all
    then show ?thesis by simp
  qed
  have "1 / 2 ^ 126 \<le> a * c" using ac0 by (rule order_trans [rotated]) simp
  from rnd32_rel [OF this] have r: "a * c * (1 - e) \<le> r" "r \<le> a * c * (1 + e)"
    by (simp_all add: r_def e_def)
  \<comment> \<open>the bounds together\<close>
  have up: "r \<le> real h * X * ((1 + e) * (1 + e) * (1 + e) * (1 + g) / (1 - g))"
  proof -
    have "c \<le> q * (1 + g) * (1 + e)"
      using c(2) d(2) eg by (meson mult_right_mono order_trans less_eq_real_def add_nonneg_nonneg zero_le_one)
    also have "\<dots> \<le> X / (1 - g) * (1 + g) * (1 + e)"
      using q(2) eg by (intro mult_right_mono) simp_all
    finally have "c \<le> X / (1 - g) * (1 + g) * (1 + e)" .
    moreover have "0 \<le> c" using c0 by (rule order_trans [rotated]) simp
    moreover have "0 \<le> real h * (1 + e)" using eg by simp
    ultimately have "a * c \<le> real h * (1 + e) * (X / (1 - g) * (1 + g) * (1 + e))"
      using a(2) by (intro mult_mono) simp_all
    then have "a * c * (1 + e) \<le> real h * (1 + e) * (X / (1 - g) * (1 + g) * (1 + e)) * (1 + e)"
      using eg by (intro mult_right_mono) simp_all
    with r(2) show ?thesis by (simp add: mult_ac)
  qed
  have lo: "real h * X * ((1 - e) * (1 - e) * (1 - e) * (1 - g) / (1 + g)) \<le> r"
  proof -
    have "X / (1 + g) * (1 - g) * (1 - e) \<le> q * (1 - g) * (1 - e)"
      using q(1) eg by (intro mult_right_mono) simp_all
    also have "\<dots> \<le> d * (1 - e)" using d(1) eg by (intro mult_right_mono) simp_all
    also have "\<dots> \<le> c" by (rule c(1))
    finally have "X / (1 + g) * (1 - g) * (1 - e) \<le> c" .
    moreover have "0 \<le> X / (1 + g) * (1 - g) * (1 - e)" using X0 eg by simp
    moreover have "0 \<le> real h * (1 - e)" using eg by simp
    ultimately have "real h * (1 - e) * (X / (1 + g) * (1 - g) * (1 - e)) \<le> a * c"
      using a(1) by (intro mult_mono) simp_all
    then have "real h * (1 - e) * (X / (1 + g) * (1 - g) * (1 - e)) * (1 - e) \<le> a * c * (1 - e)"
      using eg by (intro mult_right_mono) simp_all
    with r(1) show ?thesis by (simp add: mult_ac)
  qed
  have U: "(1 + e) * (1 + e) * (1 + e) * (1 + g) / (1 - g) \<le> 1 + 1 / 2 ^ 22"
    by (simp add: e_def g_def field_simps)
  have L: "1 - 1 / 2 ^ 22 \<le> (1 - e) * (1 - e) * (1 - e) * (1 - g) / (1 + g)"
    by (simp add: e_def g_def field_simps)
  have hX: "0 \<le> real h * X" using X0 by simp
  have fp: "float_percent h N = r"
    by (simp add: float_percent_def r_def a_def c_def d_def q_def n'_def)
  have hXeq: "100 * real h / real N = real h * X" by (simp add: X_def)
  from mult_left_mono [OF U hX] up show "float_percent h N \<le> 100 * real h / real N * (1 + 1 / 2 ^ 22)"
    unfolding fp hXeq by linarith
  from mult_left_mono [OF L hX] lo show "100 * real h / real N * (1 - 1 / 2 ^ 22) \<le> float_percent h N"
    unfolding fp hXeq by linarith
qed

text \<open>
  The percentage the source computes is within a relative error of \<open>1 / 2 ^ 22\<close> of the
  exact percentage, and so at most that much above 100.
\<close>

lemma float_percent_close:
  assumes "0 < N" "N < 2 ^ 63" "h \<le> N"
  shows "\<bar>float_percent h N - 100 * real h / real N\<bar> \<le> 100 * real h / real N / 2 ^ 22"
    and "float_percent h N \<le> 100 + 100 / 2 ^ 22"
proof -
  have *: "\<bar>float_percent h N - 100 * real h / real N\<bar> \<le> 100 * real h / real N / 2 ^ 22
           \<and> float_percent h N \<le> 100 + 100 / 2 ^ 22"
  proof (cases "h = 0")
    case True
    then show ?thesis by (simp add: float_percent_def)
  next
    case False
    then have h: "0 < h" by simp
    let ?X = "100 * real h / real N"
    note b = float_percent_bounds [OF assms(1,2) h]
    have X: "0 \<le> ?X" by simp
    have "real h \<le> real N" using assms(3) by simp
    then have X100: "?X \<le> 100" using assms(1) by (simp add: divide_le_eq)
    have 1: "\<bar>float_percent h N - ?X\<bar> \<le> ?X / 2 ^ 22"
      using b by (simp add: abs_le_iff algebra_simps)
    note b(2)
    also have "?X * (1 + 1 / 2 ^ 22) \<le> 100 * (1 + 1 / 2 ^ 22)"
      using X100 by (intro mult_right_mono) simp_all
    also have "100 * (1 + 1 / 2 ^ 22) = (100 + 100 / 2 ^ 22 :: real)" by simp
    finally have 2: "float_percent h N \<le> 100 + 100 / 2 ^ 22" .
    from 1 2 show ?thesis by simp
  qed
  from * show "\<bar>float_percent h N - 100 * real h / real N\<bar> \<le> 100 * real h / real N / 2 ^ 22" ..
  from * show "float_percent h N \<le> 100 + 100 / 2 ^ 22" ..
qed

subsection \<open>AverageMeter\<close>


lemma update_Inl:
  "count_m m + n = 0 \<Longrightarrow> update m v n = Inl (ZeroDivisionError, update_pre m v n)"
  by (simp add: update_def update_pre_def Let_def)






subsection \<open>accuracy\<close>


lemma set_insort_desc: "set (insort_desc f x ys) = insert x (set ys)"
  by (induction ys) auto

lemma length_insort_desc: "length (insort_desc f x ys) = Suc (length ys)"
  by (induction ys) auto

lemma distinct_insort_desc: "distinct (insort_desc f x ys) = (x \<notin> set ys \<and> distinct ys)"
  by (induction ys) (auto simp: set_insort_desc)

lemma spec_outranks_trans: "spec_outranks s a b \<Longrightarrow> spec_outranks s b c \<Longrightarrow> spec_outranks s a c"
  unfolding spec_outranks_def by (metis less_trans)

lemma spec_outranks_irrefl: "\<not> spec_outranks s a a"
  by (simp add: spec_outranks_def)

lemma spec_outranks_asym: "spec_outranks s a b \<Longrightarrow> \<not> spec_outranks s b a"
  unfolding spec_outranks_def by (metis less_asym)

lemma sorted_insort_desc:
  "sorted_wrt (spec_outranks s) ys \<Longrightarrow> \<forall>y \<in> set ys. x < y \<Longrightarrow>
   sorted_wrt (spec_outranks s) (insort_desc (\<lambda>i. s ! i) x ys)"
proof (induction ys)
  case Nil
  then show ?case by simp
next
  case (Cons y ys)
  show ?case
  proof (cases "s ! y \<le> s ! x")
    case True
    from Cons.prems(2) have xy: "x < y" by simp
    with True have oxy: "spec_outranks s x y" by (auto simp: spec_outranks_def)
    have "\<forall>z \<in> set ys. spec_outranks s x z"
      using Cons.prems(1) oxy by (auto intro: spec_outranks_trans)
    with True oxy Cons.prems(1) show ?thesis by simp
  next
    case False
    then have oyx: "spec_outranks s y x" by (auto simp: spec_outranks_def)
    have "sorted_wrt (spec_outranks s) (insort_desc (\<lambda>i. s ! i) x ys)"
      using Cons.IH Cons.prems by simp
    with False oyx Cons.prems(1) show ?thesis by (simp add: set_insort_desc)
  qed
qed

lemma foldr_insort_desc:
  "sorted_wrt (<) xs \<Longrightarrow>
   set (foldr (insort_desc (\<lambda>i. s ! i)) xs []) = set xs
   \<and> distinct (foldr (insort_desc (\<lambda>i. s ! i)) xs [])
   \<and> sorted_wrt (spec_outranks s) (foldr (insort_desc (\<lambda>i. s ! i)) xs [])"
proof (induction xs)
  case Nil
  then show ?case by simp
next
  case (Cons x xs)
  from Cons.prems have lt: "\<forall>y \<in> set xs. x < y" and srt: "sorted_wrt (<) xs" by simp_all
  from Cons.IH [OF srt] have
    ih: "set (foldr (insort_desc (\<lambda>i. s ! i)) xs []) = set xs"
        "distinct (foldr (insort_desc (\<lambda>i. s ! i)) xs [])"
        "sorted_wrt (spec_outranks s) (foldr (insort_desc (\<lambda>i. s ! i)) xs [])"
    by simp_all
  from lt have "x \<notin> set xs" by auto
  with ih lt show ?case
    by (simp add: set_insort_desc distinct_insort_desc sorted_insort_desc)
qed

lemma argsort_desc_props:
  "set (argsort_desc s) = {0..<length s}"
  "distinct (argsort_desc s)"
  "sorted_wrt (spec_outranks s) (argsort_desc s)"
  using foldr_insort_desc [of "[0..<length s]" s]
  by (simp_all add: argsort_desc_def)

lemma length_argsort_desc: "length (argsort_desc s) = length s"
  using distinct_card [OF argsort_desc_props(2), of s] argsort_desc_props(1) [of s] by simp

lemma take_mem_iff_rank:
  assumes d: "distinct xs" and srt: "sorted_wrt (spec_outranks s) xs" and l: "l \<in> set xs"
  shows "(l \<in> set (take k xs)) = (card {j \<in> set xs. spec_outranks s j l} < k)"
proof -
  from l obtain p where p: "p < length xs" "xs ! p = l" by (auto simp: in_set_conv_nth)
  have "{j \<in> set xs. spec_outranks s j l} = set (take p xs)"
  proof (intro set_eqI iffI)
    fix j assume "j \<in> {j \<in> set xs. spec_outranks s j l}"
    then have j: "j \<in> set xs" "spec_outranks s j l" by simp_all
    then obtain q where q: "q < length xs" "xs ! q = j" by (auto simp: in_set_conv_nth)
    have "q < p"
    proof (rule ccontr)
      assume "\<not> q < p"
      then consider "q = p" | "p < q" by linarith
      then show False
      proof cases
        case 1
        with p q j(2) show False by (simp add: spec_outranks_irrefl)
      next
        case 2
        with srt q p have "spec_outranks s l j" by (auto dest: sorted_wrt_nth_less)
        with j(2) show False by (auto dest: spec_outranks_asym)
      qed
    qed
    with q p show "j \<in> set (take p xs)" by (auto simp: in_set_conv_nth)
  next
    fix j assume "j \<in> set (take p xs)"
    then obtain q where q: "q < p" "q < length xs" "xs ! q = j"
      by (auto simp: in_set_conv_nth)
    with srt p have "spec_outranks s j l" by (auto dest: sorted_wrt_nth_less)
    with q show "j \<in> {j \<in> set xs. spec_outranks s j l}" by auto
  qed
  moreover have "card (set (take p xs)) = p"
    using d p(1) by (simp add: distinct_card)
  ultimately have c: "card {j \<in> set xs. spec_outranks s j l} = p" by simp
  have "(l \<in> set (take k xs)) = (p < k)"
  proof
    assume "l \<in> set (take k xs)"
    then obtain q where q: "q < k" "q < length xs" "xs ! q = l"
      by (auto simp: in_set_conv_nth)
    with d p nth_eq_iff_index_eq [of xs q p] have "q = p" by simp
    with q show "p < k" by simp
  next
    assume "p < k"
    with p show "l \<in> set (take k xs)" by (auto simp: in_set_conv_nth)
  qed
  with c show ?thesis by simp
qed

lemma spec_rank_card: "spec_rank s l = card {j \<in> {0..<length s}. spec_outranks s j l}"
proof -
  have "distinct (filter (\<lambda>j. spec_outranks s j l) [0..<length s])" by simp
  from distinct_card [OF this]
  have "spec_rank s l = card (set (filter (\<lambda>j. spec_outranks s j l) [0..<length s]))"
    unfolding spec_rank_def by simp
  also have "set (filter (\<lambda>j. spec_outranks s j l) [0..<length s]) = {j \<in> {0..<length s}. spec_outranks s j l}"
    by auto
  finally show ?thesis .
qed

lemma top_mem_iff_spec:
  "(l \<in> int ` set (take k (argsort_desc s))) = spec_in_top k s l"
proof (cases "0 \<le> l \<and> nat l < length s")
  case True
  then have m: "nat l \<in> set (argsort_desc s)" by (simp add: argsort_desc_props(1))
  have "(l \<in> int ` set (take k (argsort_desc s))) = (nat l \<in> set (take k (argsort_desc s)))"
  proof
    assume "l \<in> int ` set (take k (argsort_desc s))"
    then obtain j where "j \<in> set (take k (argsort_desc s))" "l = int j" by auto
    then show "nat l \<in> set (take k (argsort_desc s))" by simp
  next
    assume "nat l \<in> set (take k (argsort_desc s))"
    then have "int (nat l) \<in> int ` set (take k (argsort_desc s))" by (rule imageI)
    with True show "l \<in> int ` set (take k (argsort_desc s))" by simp
  qed
  also have "\<dots> = (card {j \<in> set (argsort_desc s). spec_outranks s j (nat l)} < k)"
    by (rule take_mem_iff_rank [OF argsort_desc_props(2) argsort_desc_props(3) m])
  also have "\<dots> = (spec_rank s (nat l) < k)"
    by (simp add: spec_rank_card argsort_desc_props(1))
  finally show ?thesis using True by (simp add: spec_in_top_def)
next
  case False
  have "l \<notin> int ` set (take k (argsort_desc s))"
  proof
    assume "l \<in> int ` set (take k (argsort_desc s))"
    then obtain j where j: "j \<in> set (take k (argsort_desc s))" "l = int j" by auto
    from j(1) have "j \<in> set (argsort_desc s)" by (rule in_set_takeD)
    then have "j < length s" by (simp add: argsort_desc_props(1))
    with j(2) False show False by simp
  qed
  with False show ?thesis by (auto simp: spec_in_top_def)
qed

lemma sum_list_swap:
  "sum_list (map (\<lambda>x. sum_list (map (\<lambda>y. f x y) ys)) xs)
   = sum_list (map (\<lambda>y. sum_list (map (\<lambda>x. (f x y :: real)) xs)) ys)"
  by (induction xs) (simp_all add: sum_list_addf)

lemma map_nth_upt_take: "k \<le> length r \<Longrightarrow> map (\<lambda>p. r ! p) [0..<k] = take k r"
  by (rule nth_equalityI) simp_all

lemma sum_list_distinct_hit:
  "distinct xs \<Longrightarrow>
   sum_list (map (\<lambda>x. if int x = t then 1 else 0) xs) = (if t \<in> int ` set xs then 1 else (0::real))"
  by (induction xs) auto

lemma count_true_rows:
  "count_true (map H xs) = sum_list (map (\<lambda>p. sum_list (map (\<lambda>b. if b then 1 else 0) (H p))) xs)"
  by (induction xs) (simp_all add: count_true_def)

lemma count_true_correct:
  assumes kK: "k \<le> K" and pr: "\<forall>r \<in> set pred0. length r = K \<and> distinct r"
  shows "count_true (take k (map (\<lambda>prow. map2 (\<lambda>p t. int p = t) prow tgt) (tensor_t K pred0)))
         = sum_list (map (\<lambda>rt. if snd rt \<in> int ` set (take k (fst rt)) then 1 else 0) (zip pred0 tgt))"
proof -
  let ?H = "\<lambda>p. map (\<lambda>rt. int (fst rt ! p) = snd rt) (zip pred0 tgt)"
  have H: "map2 (\<lambda>p t. int p = t) (map (\<lambda>r. r ! p) pred0) tgt = ?H p" for p
    by (simp add: zip_map1 case_prod_beta)
  have "take k (map (\<lambda>prow. map2 (\<lambda>p t. int p = t) prow tgt) (tensor_t K pred0)) = map ?H [0..<k]"
    using kK by (simp add: tensor_t_def take_map H min_def)
  then have "count_true (take k (map (\<lambda>prow. map2 (\<lambda>p t. int p = t) prow tgt) (tensor_t K pred0)))
      = sum_list (map (\<lambda>p. sum_list (map (\<lambda>rt. if int (fst rt ! p) = snd rt then 1 else 0)
                                          (zip pred0 tgt))) [0..<k])"
    by (simp add: count_true_rows comp_def)
  also have "\<dots> = sum_list (map (\<lambda>rt. sum_list (map (\<lambda>p. if int (fst rt ! p) = snd rt then 1 else 0)
                                          [0..<k])) (zip pred0 tgt))"
    by (rule sum_list_swap)
  also have "\<dots> = sum_list (map (\<lambda>rt. if snd rt \<in> int ` set (take k (fst rt)) then 1 else 0)
                               (zip pred0 tgt))"
  proof (rule arg_cong [where f = sum_list], rule map_cong [OF refl])
    fix rt assume "rt \<in> set (zip pred0 tgt)"
    then have "fst rt \<in> set pred0" by (metis prod.collapse set_zip_leftD)
    with pr have len: "length (fst rt) = K" and d: "distinct (fst rt)" by simp_all
    have "sum_list (map (\<lambda>p. if int (fst rt ! p) = snd rt then 1 else (0::real)) [0..<k])
        = sum_list (map (\<lambda>x. if int x = snd rt then 1 else 0) (map (\<lambda>p. fst rt ! p) [0..<k]))"
      by (simp add: comp_def)
    also have "\<dots> = sum_list (map (\<lambda>x. if int x = snd rt then 1 else 0) (take k (fst rt)))"
      using kK len by (simp add: map_nth_upt_take)
    also have "\<dots> = (if snd rt \<in> int ` set (take k (fst rt)) then 1 else 0)"
      using d by (intro sum_list_distinct_hit) simp
    finally show "sum_list (map (\<lambda>p. if int (fst rt ! p) = snd rt then 1 else (0::real)) [0..<k])
        = (if snd rt \<in> int ` set (take k (fst rt)) then 1 else 0)" .
  qed
  finally show ?thesis .
qed

lemma sum_list_indicator:
  "sum_list (map (\<lambda>x. if P x then 1 else (0::real)) xs) = real (length (filter P xs))"
  by (induction xs) simp_all

lemma count_true_spec_hits:
  assumes kK: "k \<le> K" and KC: "K \<le> C" and wf: "\<forall>s \<in> set ss. length s = C"
  shows "count_true (take k (map (\<lambda>prow. map2 (\<lambda>p t. int p = t) prow tgt)
            (tensor_t K (map (\<lambda>r. take K (argsort_desc r)) ss))))
         = real (spec_hits k ss tgt)"
proof -
  let ?pred0 = "map (\<lambda>r. take K (argsort_desc r)) ss"
  have pr: "\<forall>r \<in> set ?pred0. length r = K \<and> distinct r"
    using wf KC by (auto simp: length_argsort_desc argsort_desc_props(2))
  have "count_true (take k (map (\<lambda>prow. map2 (\<lambda>p t. int p = t) prow tgt) (tensor_t K ?pred0)))
      = sum_list (map (\<lambda>rt. if snd rt \<in> int ` set (take k (fst rt)) then 1 else 0) (zip ?pred0 tgt))"
    by (rule count_true_correct [OF kK pr])
  also have "\<dots> = sum_list (map (\<lambda>st. if spec_in_top k (fst st) (snd st) then 1 else 0) (zip ss tgt))"
    using kK by (simp add: zip_map1 comp_def case_prod_beta min_def top_mem_iff_spec)
  also have "\<dots> = real (length (filter (\<lambda>st. spec_in_top k (fst st) (snd st)) (zip ss tgt)))"
    by (rule sum_list_indicator)
  finally show ?thesis by (simp add: spec_hits_def case_prod_unfold)
qed

lemma py_max_Inr:
  assumes "ks \<noteq> []"
  shows "py_max ks = Inr (Max (set ks))"
proof -
  from assms obtain k ks' where ks: "ks = k # ks'" by (cases ks) auto
  have "foldl max k ks' = fold max ks' k"
    by (simp add: foldl_conv_fold max.commute)
  also have "\<dots> = Max (set (k # ks'))" by (rule Max.set_eq_fold [symmetric])
  finally show ?thesis using ks by (simp add: py_max_def)
qed

lemma accuracy_loop_Inr:
  "0 < bs \<Longrightarrow>
   accuracy_loop correct bs ks
   = Inr (map (\<lambda>k. rnd32 (rnd32 (count_true (py_slice_to k correct))
                          * rnd32 (rnd64 (100 / rnd64 (real bs))))) ks)"
  by (induction ks) simp_all

lemma accuracy_loop_empty_batch:
  "ks \<noteq> [] \<Longrightarrow> accuracy_loop correct 0 ks = Inl ZeroDivisionError"
  by (cases ks) simp_all


lemma accuracy_Inr:
  assumes ks: "ks \<noteq> []" and M: "0 \<le> Max (set ks)" "Max (set ks) \<le> int (ncols output)"
    and len: "length target = length (rows output)" and N: "0 < length target"
  shows "accuracy output target ks
         = Inr (map (\<lambda>k. rnd32 (rnd32 (count_true (py_slice_to k
                                    (correct_of output target (nat (Max (set ks))))))
                                 * rnd32 (rnd64 (100 / rnd64 (real (length target)))))) ks)"
  using M len N
  by (simp add: accuracy_def py_max_Inr [OF ks] tensor_topk_def expand_as_def Let_def
      accuracy_loop_Inr correct_of_def)

lemma py_slice_to_nonneg: "0 \<le> k \<Longrightarrow> py_slice_to k xs = take (nat k) xs"
  by (simp add: py_slice_to_def)

lemma count_true_correct_of:
  assumes "0 \<le> k" "k \<le> M" "M \<le> int (ncols output)" "wf_tensor2 output"
  shows "count_true (py_slice_to k (correct_of output target (nat M)))
         = real (spec_hits (nat k) (rows output) target)"
proof -
  have wf: "\<forall>s \<in> set (rows output). length s = ncols output"
    using assms(4) by (simp add: wf_tensor2_def list_all_iff)
  have "count_true (take (nat k) (correct_of output target (nat M)))
        = real (spec_hits (nat k) (rows output) target)"
    unfolding correct_of_def
    by (rule count_true_spec_hits [where C = "ncols output"]) (use assms wf in simp_all)
  with assms(1) show ?thesis by (simp add: py_slice_to_nonneg)
qed

lemma spec_hits_le: "spec_hits k ss ls \<le> length ls"
proof -
  have "spec_hits k ss ls \<le> length (zip ss ls)"
    unfolding spec_hits_def by (rule length_filter_le)
  then show ?thesis by simp
qed

lemma Max_bounds:
  assumes "ks \<noteq> []" "\<forall>k \<in> set ks. 0 < k \<and> k \<le> (C::int)"
  shows "0 \<le> Max (set ks)" "Max (set ks) \<le> C" "\<forall>k \<in> set ks. k \<le> Max (set ks)"
proof -
  from assms(1) have ne: "set ks \<noteq> {}" by simp
  then have "Max (set ks) \<in> set ks" by (intro Max_in) simp_all
  with assms(2) show "0 \<le> Max (set ks)" "Max (set ks) \<le> C" by auto
  show "\<forall>k \<in> set ks. k \<le> Max (set ks)" by simp
qed

text \<open>
  On a well-formed batch with as many labels as rows, at least one row and a non-empty
  tuple of positive \<open>k\<close> within the class count, \<open>accuracy\<close> returns, aligned with the
  tuple, the percentage computed in floats from the number of examples whose label is
  among the top k.
\<close>

lemma accuracy_spec_hits:
  assumes wf: "wf_tensor2 output"
    and N: "length (rows output) = N" "length target = N" "0 < N"
    and ks: "ks \<noteq> []" "\<forall>k \<in> set ks. 0 < k \<and> k \<le> int (ncols output)"
  shows "accuracy output target ks
           = Inr (map (\<lambda>k. float_percent (spec_hits (nat k) (rows output) target) N) ks)"
proof -
  note mb = Max_bounds [OF ks]
  have "accuracy output target ks
         = Inr (map (\<lambda>k. rnd32 (rnd32 (count_true (py_slice_to k
                                    (correct_of output target (nat (Max (set ks))))))
                                 * rnd32 (rnd64 (100 / rnd64 (real (length target)))))) ks)"
    using N by (intro accuracy_Inr [OF ks(1) mb(1) mb(2)]) simp_all
  also have "map (\<lambda>k. rnd32 (rnd32 (count_true (py_slice_to k
                                    (correct_of output target (nat (Max (set ks))))))
                                 * rnd32 (rnd64 (100 / rnd64 (real (length target)))))) ks
      = map (\<lambda>k. float_percent (spec_hits (nat k) (rows output) target) N) ks"
  proof (rule map_cong [OF refl])
    fix k assume k: "k \<in> set ks"
    with ks(2) mb(3) have "0 \<le> k" "k \<le> Max (set ks)" by auto
    from count_true_correct_of [OF this mb(2) wf, of target] N(2)
    show "rnd32 (rnd32 (count_true (py_slice_to k (correct_of output target (nat (Max (set ks))))))
                 * rnd32 (rnd64 (100 / rnd64 (real (length target)))))
          = float_percent (spec_hits (nat k) (rows output) target) N"
      by (simp add: float_percent_def)
  qed
  finally show ?thesis .
qed

text \<open>Percentages of small batches, evaluated.\<close>

lemma float_percent_0: "float_percent 0 N = 0"
  by (simp add: float_percent_def)

lemma float_percent_1_1: "float_percent (Suc 0) (Suc 0) = 100"
  by (simp add: float_percent_def rnd32_numeral rnd64_numeral)

lemma float_percent_1_2: "float_percent (Suc 0) 2 = 50"
  by (simp add: float_percent_def rnd32_numeral rnd64_numeral)

lemma float_percent_2_2: "float_percent 2 2 = 100"
  by (simp add: float_percent_def rnd32_numeral rnd64_numeral)

lemma float_percent_nonneg: "0 \<le> float_percent h N"
proof -
  have "0 \<le> rnd32 (real h)" by (rule rnd32_nonneg) simp
  then have "0 \<le> rnd32 (real h) * rnd32 (rnd64 (100 / rnd64 (real N)))"
    using scale_nonneg by (rule mult_nonneg_nonneg)
  then show ?thesis unfolding float_percent_def by (rule rnd32_nonneg)
qed

text \<open>
  On a batch of 45 examples that are all hits the two roundings of the factor and of the
  product leave a number above 100: the float nearest to 100/45 is
  5003999585967218 / 2 ^ 51, the float32 nearest to that is 9320676 / 2 ^ 22, which is above
  100/45, and 45 times it is rounded to the float32 13107201 / 2 ^ 17 = 100.00000762939453125.
\<close>

lemma float_percent_45: "float_percent 45 45 = 13107201 / 2 ^ 17"
proof -
  have "rnd 53 (- 1022) (100 / 45) = real_of_int 5003999585967218 * 2 powi (- 51)"
    by (rule rnd_eval [where e = 1]) (simp_all add: rhe_eval)
  then have 1: "rnd64 (100 / 45) = 5003999585967218 / 2 ^ 51" by (simp add: rnd64_def)
  have "rnd 24 (- 126) (5003999585967218 / 2 ^ 51) = real_of_int 9320676 * 2 powi (- 22)"
    by (rule rnd_eval [where e = 1]) (simp_all add: rhe_eval)
  then have 2: "rnd32 (5003999585967218 / 2 ^ 51) = 9320676 / 2 ^ 22" by (simp add: rnd32_def)
  have "rnd 24 (- 126) (45 * (9320676 / 2 ^ 22)) = real_of_int 13107201 * 2 powi (- 17)"
    by (rule rnd_eval [where e = 6]) (simp_all add: rhe_eval)
  then have 3: "rnd32 (45 * (9320676 / 2 ^ 22)) = 13107201 / 2 ^ 17" by (simp add: rnd32_def)
  have "float_percent 45 45 = rnd32 (45 * rnd32 (rnd64 (100 / 45)))"
    by (simp add: float_percent_def rnd32_numeral rnd64_numeral)
  also have "\<dots> = 13107201 / 2 ^ 17" by (simp only: 1 2 3)
  finally show ?thesis .
qed

lemma spec_hits_replicate:
  "spec_hits k (replicate n s) (replicate n l) = (if spec_in_top k s l then n else 0)"
  by (simp add: spec_hits_def)

text \<open>
  Claim C1, amended. For every batch of N > 0 score vectors over C classes (a
  well-formed tensor: every row has C entries), every list of N labels and every
  non-empty tuple \<open>ks\<close> of positive integers each at most C, \<open>accuracy\<close> returns a list
  aligned with \<open>ks\<close>. Its entry for \<open>k\<close> is computed in floats from the number h of the N
  examples whose label is among the k highest-scoring classes of its score vector, equal
  scores being ranked by ascending class index: it is the float32 product of h and the
  float32 nearest to the float \<^verbatim>\<open>100.0 / N\<close>. The entry differs from 100 times the
  fraction h/N by at most the \<open>2 ^ 22\<close>-th part of it, and lies between 0 and
  \<open>100 + 100 / 2 ^ 22\<close>. The labels need not be within [0, C): a label that is no class is
  among no top k.

  The claim as first stated does not hold: with N = 0 the call raises
  \<^verbatim>\<open>ZeroDivisionError\<close>, with the empty tuple \<^verbatim>\<open>ValueError\<close>, and the entry need not be 100
  times the fraction nor at most 100, as 45 hits among 45 examples show.
\<close>

theorem accuracy_top_k:
  assumes wf: "wf_tensor2 output"
    and N: "length (rows output) = N" "length target = N" "0 < N"
    and ks: "ks \<noteq> []" "\<forall>k \<in> set ks. 0 < k \<and> k \<le> int (ncols output)"
  shows "accuracy output target ks
           = Inr (map (\<lambda>k. float_percent (spec_hits (nat k) (rows output) target) N) ks)
         \<and> (\<forall>k \<in> set ks.
               \<bar>float_percent (spec_hits (nat k) (rows output) target) N
                  - 100 * real (spec_hits (nat k) (rows output) target) / real N\<bar>
                 \<le> 100 * real (spec_hits (nat k) (rows output) target) / real N / 2 ^ 22
               \<and> 0 \<le> float_percent (spec_hits (nat k) (rows output) target) N
               \<and> float_percent (spec_hits (nat k) (rows output) target) N \<le> 100 + 100 / 2 ^ 22)"
proof -
  from wf N(1) have N63: "N < 2 ^ 63" by (simp add: wf_tensor2_def)
  have "spec_hits k (rows output) target \<le> N" for k
    using spec_hits_le [of k "rows output" target] N(2) by simp
  from float_percent_close [OF N(3) N63 this] float_percent_nonneg accuracy_spec_hits [OF wf N ks]
  show ?thesis by blast
qed

text \<open>
  The theorem at the scores [[0.9, 0.1], [0.8, 0.2]] with labels [1, 0] and \<open>ks\<close> = (1, 2):
  the first example's label is ranked second and the second's first, so the top-1
  accuracy is 50 and the top-2 accuracy 100, both without rounding.
\<close>

theorem accuracy_top_k_witness:
  "accuracy \<lparr>ncols = 2, rows = [[0.9, 0.1], [0.8, 0.2 :: real]]\<rparr> [1, 0] [1, 2] = Inr [50, 100]"
proof -
  let ?out = "\<lparr>ncols = 2, rows = [[0.9, 0.1], [0.8, 0.2 :: real]]\<rparr>"
  have wf: "wf_tensor2 ?out" by (simp add: wf_tensor2_def)
  have N: "length (rows ?out) = 2" "length [1, 0 :: int] = 2" "0 < (2 :: nat)" by simp_all
  have ks: "[1, 2 :: int] \<noteq> []" "\<forall>k \<in> set [1, 2 :: int]. 0 < k \<and> k \<le> int (ncols ?out)"
    by simp_all
  have h1: "spec_hits (nat 1) [[0.9, 0.1], [0.8, 0.2 :: real]] [1, 0] = 1" by code_simp
  have h2: "spec_hits (nat 2) [[0.9, 0.1], [0.8, 0.2 :: real]] [1, 0] = 2" by code_simp
  from accuracy_top_k [OF wf N ks] h1 h2 show ?thesis
    by (simp add: float_percent_1_2 float_percent_2_2)
qed

text \<open>
  The claim as first stated fails on an empty batch and on an empty tuple: with no
  example, \<^verbatim>\<open>100.0 / batch_size\<close> raises; with no \<open>k\<close>, \<^verbatim>\<open>max(topk)\<close> raises. It fails on
  45 examples with the scores [0.9, 0.1] and the label 0 each: all 45 labels are the
  top class, 100 times the fraction is 100, and the entry for k = 1 is
  13107201 / 2 ^ 17 = 100.00000762939453125.
\<close>

theorem accuracy_top_k_counterexample:
  "accuracy \<lparr>ncols = 2, rows = ([] :: real list list)\<rparr> [] [1] = Inl ZeroDivisionError
   \<and> accuracy \<lparr>ncols = 2, rows = [[0.9, 0.1 :: real]]\<rparr> [0] [] = Inl ValueError
   \<and> accuracy \<lparr>ncols = 2, rows = replicate 45 [0.9, 0.1 :: real]\<rparr> (replicate 45 0) [1]
       = Inr [13107201 / 2 ^ 17]
   \<and> spec_hits 1 (replicate 45 [0.9, 0.1 :: real]) (replicate 45 0) = 45
   \<and> (100 :: real) * 45 / 45 < 13107201 / 2 ^ 17
   \<and> (100 :: real) < 13107201 / 2 ^ 17"
proof -
  let ?out = "\<lparr>ncols = 2, rows = replicate 45 [0.9, 0.1 :: real]\<rparr>"
  have top: "spec_in_top 1 [0.9, 0.1 :: real] 0" by code_simp
  have h: "spec_hits 1 (replicate 45 [0.9, 0.1 :: real]) (replicate 45 0) = 45"
    using top by (simp add: spec_hits_replicate)
  have wf: "wf_tensor2 ?out" by (simp add: wf_tensor2_def list_all_iff)
  have N: "length (rows ?out) = 45" "length (replicate 45 (0 :: int)) = 45" "0 < (45 :: nat)"
    by simp_all
  have ks: "[1 :: int] \<noteq> []" "\<forall>k \<in> set [1 :: int]. 0 < k \<and> k \<le> int (ncols ?out)" by simp_all
  have "accuracy ?out (replicate 45 0) [1] = Inr [13107201 / 2 ^ 17]"
    using accuracy_spec_hits [OF wf N ks] h by (simp add: float_percent_45)
  moreover have "accuracy \<lparr>ncols = 2, rows = ([] :: real list list)\<rparr> [] [1] = Inl ZeroDivisionError"
    by (simp add: accuracy_def py_max_def tensor_topk_def tensor_t_def expand_as_def)
  moreover have "accuracy \<lparr>ncols = 2, rows = [[0.9, 0.1 :: real]]\<rparr> [0] [] = Inl ValueError"
    by (simp add: accuracy_def py_max_def)
  ultimately show ?thesis using h by simp
qed


lemma accuracy_topk_range:
  assumes "\<exists>k \<in> set ks. int (ncols output) < k"
  shows "accuracy output target ks = Inl RuntimeError"
proof -
  from assms obtain k where k: "k \<in> set ks" "int (ncols output) < k" by blast
  then have ne: "ks \<noteq> []" by auto
  from k(1) have "k \<le> Max (set ks)" by simp
  with k(2) have "int (ncols output) < Max (set ks)" by linarith
  then show ?thesis
    by (simp add: accuracy_def py_max_Inr [OF ne] tensor_topk_def)
qed

text \<open>
  Claim C6. When some requested \<open>k\<close> exceeds the number of classes, \<open>accuracy\<close> raises:
  \<^verbatim>\<open>max(topk)\<close> is then above C, and \<^verbatim>\<open>topk\<close> refuses it with a \<^verbatim>\<open>RuntimeError\<close> before
  anything is computed, whatever the scores, the labels and the batch size.
\<close>

theorem accuracy_k_exceeds_classes:
  assumes "\<exists>k \<in> set ks. int (ncols output) < k"
  shows "accuracy output target ks = Inl RuntimeError"
  using assms by (rule accuracy_topk_range)

text \<open>The theorem at two classes and \<open>ks\<close> = (1, 5), the tuple the loops request.\<close>

theorem accuracy_k_exceeds_classes_witness:
  "accuracy \<lparr>ncols = 2, rows = [[0.9, 0.1], [0.8, 0.2 :: real]]\<rparr> [1, 0] [1, 5] = Inl RuntimeError"
proof -
  have "\<exists>k \<in> set [1, 5 :: int]. int (ncols \<lparr>ncols = 2, rows = [[0.9, 0.1], [0.8, 0.2 :: real]]\<rparr>) < k"
    by simp
  then show ?thesis by (rule accuracy_k_exceeds_classes)
qed

lemma take_correct_of:
  assumes "k \<le> K"
  shows "take k (correct_of output tgt K)
         = map (\<lambda>p. map2 (\<lambda>p t. int p = t) (map (\<lambda>s. argsort_desc s ! p) (rows output)) tgt) [0..<k]"
proof -
  have "take k (correct_of output tgt K)
        = map (\<lambda>p. map2 (\<lambda>p t. int p = t) (map (\<lambda>s. take K (argsort_desc s) ! p) (rows output)) tgt)
            [0..<k]"
    using assms by (simp add: correct_of_def tensor_t_def take_map comp_def min_def)
  also have "\<dots> = map (\<lambda>p. map2 (\<lambda>p t. int p = t) (map (\<lambda>s. argsort_desc s ! p) (rows output)) tgt)
            [0..<k]"
    using assms by (intro map_cong [OF refl]) simp
  finally show ?thesis .
qed

lemma count_true_nonneg: "0 \<le> count_true bss"
  unfolding count_true_def by (rule sum_list_nonneg) auto

lemma count_true_append: "count_true (xs @ ys) = count_true xs + count_true ys"
  by (simp add: count_true_def)

lemma count_true_take_mono:
  assumes "k1 \<le> k2" "k2 \<le> K"
  shows "count_true (take k1 (correct_of output tgt K)) \<le> count_true (take k2 (correct_of output tgt K))"
proof -
  let ?H = "\<lambda>p. map2 (\<lambda>p t. int p = t) (map (\<lambda>s. argsort_desc s ! p) (rows output)) tgt"
  from assms have k1: "k1 \<le> K" by simp
  have "[0..<k2] = [0..<k1] @ [k1..<k2]"
    using assms(1) by (metis le_add_diff_inverse upt_add_eq_append zero_le)
  then have "map ?H [0..<k2] = map ?H [0..<k1] @ map ?H [k1..<k2]" by simp
  then have "count_true (map ?H [0..<k2]) = count_true (map ?H [0..<k1]) + count_true (map ?H [k1..<k2])"
    by (simp add: count_true_append)
  with count_true_nonneg [of "map ?H [k1..<k2]"]
  have "count_true (map ?H [0..<k1]) \<le> count_true (map ?H [0..<k2])" by simp
  then show ?thesis by (simp add: take_correct_of [OF k1] take_correct_of [OF assms(2)])
qed

lemma correct_of_eq_take:
  assumes "k \<le> K"
  shows "correct_of output tgt k = take k (correct_of output tgt K)"
  using take_correct_of [OF assms, of "output" tgt] take_correct_of [OF le_refl, of k "output" tgt]
  by (simp add: correct_of_def tensor_t_def)

text \<open>
  Claim C7. For a batch of N > 0 examples with N labels and 0 < k1 \<le> k2 \<le> C, the
  top-k1 accuracy is at most the top-k2 accuracy, whether the two are computed by two
  calls or by one call with \<open>ks\<close> = (k1, k2): both calls return, and the one call
  returns the same two numbers. Within one call the two entries count hits in two
  initial parts of the same ranking, whatever the order of equal scores; across two
  calls the statement rests on the ranking being the same in both, as it is here.
\<close>

theorem accuracy_monotone_in_k:
  assumes N: "length (rows output) = length target" "0 < length target"
    and k: "0 < k1" "k1 \<le> k2" "k2 \<le> int (ncols output)"
  shows "\<exists>a1 a2. accuracy output target [k1] = Inr [a1]
              \<and> accuracy output target [k2] = Inr [a2]
              \<and> accuracy output target [k1, k2] = Inr [a1, a2]
              \<and> a1 \<le> a2"
proof -
  let ?c = "rnd32 (rnd64 (100 / rnd64 (real (length target))))"
  let ?t1 = "count_true (take (nat k1) (correct_of output target (nat k2)))"
  let ?t2 = "count_true (take (nat k2) (correct_of output target (nat k2)))"
  let ?a1 = "rnd32 (rnd32 ?t1 * ?c)"
  let ?a2 = "rnd32 (rnd32 ?t2 * ?c)"
  have le: "nat k1 \<le> nat k2" using k by simp
  have m12: "Max (set [k1, k2]) = k2" using k by (simp add: max_def)
  have e1: "accuracy output target [k1] = Inr [?a1]"
    using accuracy_Inr [of "[k1]" "output" target] N k
      correct_of_eq_take [OF le, of "output" target] by (simp add: py_slice_to_nonneg)
  have e2: "accuracy output target [k2] = Inr [?a2]"
    using accuracy_Inr [of "[k2]" "output" target] N k by (simp add: py_slice_to_nonneg)
  have e12: "accuracy output target [k1, k2] = Inr [?a1, ?a2]"
    using accuracy_Inr [of "[k1, k2]" "output" target] N k
    by (simp only: m12) (simp add: py_slice_to_nonneg)
  have "?t1 \<le> ?t2" by (rule count_true_take_mono [OF le le_refl])
  then have t: "rnd32 ?t1 \<le> rnd32 ?t2" by (intro rnd32_mono count_true_nonneg)
  have c: "0 \<le> ?c" by (rule scale_nonneg)
  from t c have "rnd32 ?t1 * ?c \<le> rnd32 ?t2 * ?c" by (rule mult_right_mono)
  moreover have "0 \<le> rnd32 ?t1" by (intro rnd32_nonneg count_true_nonneg)
  then have "0 \<le> rnd32 ?t1 * ?c" using c by (rule mult_nonneg_nonneg)
  ultimately have "?a1 \<le> ?a2" by (intro rnd32_mono)
  with e1 e2 e12 show ?thesis by blast
qed

text \<open>The theorem at the batch above with k1 = 1 and k2 = 2: 50 \<le> 100.\<close>

theorem accuracy_monotone_in_k_witness:
  "accuracy \<lparr>ncols = 2, rows = [[0.9, 0.1], [0.8, 0.2 :: real]]\<rparr> [1, 0] [1] = Inr [50]
   \<and> accuracy \<lparr>ncols = 2, rows = [[0.9, 0.1], [0.8, 0.2 :: real]]\<rparr> [1, 0] [2] = Inr [100]
   \<and> accuracy \<lparr>ncols = 2, rows = [[0.9, 0.1], [0.8, 0.2 :: real]]\<rparr> [1, 0] [1, 2] = Inr [50, 100]
   \<and> (50 :: real) \<le> 100"
proof -
  let ?out = "\<lparr>ncols = 2, rows = [[0.9, 0.1], [0.8, 0.2 :: real]]\<rparr>"
  have N: "length (rows ?out) = length [1, 0 :: int]" "0 < length [1, 0 :: int]" by simp_all
  have k: "(0 :: int) < 1" "(1 :: int) \<le> 2" "2 \<le> int (ncols ?out)" by simp_all
  from accuracy_monotone_in_k [OF N k] obtain a1 a2 where
    a: "accuracy ?out [1, 0] [1] = Inr [a1]" "accuracy ?out [1, 0] [2] = Inr [a2]"
       "accuracy ?out [1, 0] [1, 2] = Inr [a1, a2]" "a1 \<le> a2"
    by blast
  have wf: "wf_tensor2 ?out" by (simp add: wf_tensor2_def)
  have h1: "spec_hits (nat 1) [[0.9, 0.1], [0.8, 0.2 :: real]] [1, 0] = 1" by code_simp
  have h2: "spec_hits (nat 2) [[0.9, 0.1], [0.8, 0.2 :: real]] [1, 0] = 2" by code_simp
  have "accuracy ?out [1, 0] [1, 2] = Inr [50, 100]"
    using accuracy_spec_hits [OF wf, of 2 "[1, 0]" "[1, 2]"] h1 h2
    by (simp add: float_percent_1_2 float_percent_2_2)
  with a(3) have "a1 = 50" "a2 = 100" by simp_all
  with a show ?thesis by simp
qed

lemma spec_in_top_all:
  assumes "0 \<le> l" "l < int (length s)"
  shows "spec_in_top (length s) s l"
proof -
  have "take (length s) (argsort_desc s) = argsort_desc s"
    by (simp add: length_argsort_desc)
  moreover have "l \<in> int ` set (argsort_desc s)"
  proof -
    from assms have "nat l \<in> set (argsort_desc s)" by (simp add: argsort_desc_props(1))
    then have "int (nat l) \<in> int ` set (argsort_desc s)" by (rule imageI)
    with assms(1) show ?thesis by simp
  qed
  ultimately show ?thesis using top_mem_iff_spec [of l "length s" s] by simp
qed

lemma spec_hits_all:
  assumes "\<forall>s \<in> set ss. length s = C" "\<forall>l \<in> set ls. 0 \<le> l \<and> l < int C"
  shows "spec_hits C ss ls = length (zip ss ls)"
proof -
  have "filter (\<lambda>(s, l). spec_in_top C s l) (zip ss ls) = zip ss ls"
  proof (rule filter_True, clarify)
    fix s l assume "(s, l) \<in> set (zip ss ls)"
    then have "s \<in> set ss" "l \<in> set ls" by (auto dest: set_zip_leftD set_zip_rightD)
    with assms have "length s = C" "0 \<le> l" "l < int (length s)" by auto
    with spec_in_top_all [of l s] show "spec_in_top C s l" by simp
  qed
  then show ?thesis by (simp add: spec_hits_def)
qed

text \<open>
  With \<open>k\<close> = C on a well-formed batch of N > 0 score vectors over C classes and N labels
  each in [0, C), every example is a hit and the entry is the percentage computed in
  floats from N hits among N.
\<close>

lemma accuracy_all_hits:
  assumes wf: "wf_tensor2 output"
    and N: "length (rows output) = length target" "0 < length target"
    and lab: "\<forall>l \<in> set target. 0 \<le> l \<and> l < int (ncols output)"
    and ks: "\<forall>k \<in> set ks. k \<le> int (ncols output)"
    and i: "i < length ks" "ks ! i = int (ncols output)"
  shows "\<exists>res. accuracy output target ks = Inr res \<and> length res = length ks
               \<and> res ! i = float_percent (length target) (length target)"
proof -
  from i have ne: "ks \<noteq> []" by auto
  from i have mem: "int (ncols output) \<in> set ks" by (metis nth_mem)
  have M: "Max (set ks) = int (ncols output)"
    using mem ks by (intro Max_eqI) auto
  let ?res = "map (\<lambda>k. rnd32 (rnd32 (count_true (py_slice_to k (correct_of output target (ncols output))))
                                * rnd32 (rnd64 (100 / rnd64 (real (length target)))))) ks"
  have e: "accuracy output target ks = Inr ?res"
    using accuracy_Inr [OF ne, of "output" target] N by (simp add: M)
  have wf': "\<forall>s \<in> set (rows output). length s = ncols output"
    using wf by (simp add: wf_tensor2_def list_all_iff)
  have "count_true (py_slice_to (int (ncols output)) (correct_of output target (nat (int (ncols output)))))
        = real (spec_hits (nat (int (ncols output))) (rows output) target)"
    by (rule count_true_correct_of [OF _ _ _ wf]) simp_all
  also have "\<dots> = real (length target)"
    using spec_hits_all [OF wf' lab] N(1) by simp
  finally have "?res ! i = float_percent (length target) (length target)"
    using i by (simp add: float_percent_def)
  with e show ?thesis by simp
qed

text \<open>
  Claim C8, amended. For a well-formed batch of N > 0 score vectors over C classes and N
  labels each in [0, C), every call whose tuple holds no \<open>k\<close> above C returns, and its
  entry for \<open>k\<close> = C is the float32 product of N and the float32 nearest to the float
  \<^verbatim>\<open>100.0 / N\<close>, which is within \<open>100 / 2 ^ 22\<close> of 100. It is not always 100, as the claim
  first had it: the two roundings of the factor and of the product can leave another
  float32 near 100.
\<close>

theorem accuracy_all_classes:
  assumes wf: "wf_tensor2 output"
    and N: "length (rows output) = length target" "0 < length target"
    and lab: "\<forall>l \<in> set target. 0 \<le> l \<and> l < int (ncols output)"
    and ks: "\<forall>k \<in> set ks. k \<le> int (ncols output)"
    and i: "i < length ks" "ks ! i = int (ncols output)"
  shows "\<exists>res. accuracy output target ks = Inr res \<and> length res = length ks
               \<and> res ! i = float_percent (length target) (length target)
               \<and> \<bar>res ! i - 100\<bar> \<le> 100 / 2 ^ 22"
proof -
  from wf N(1) have N63: "length target < 2 ^ 63" by (simp add: wf_tensor2_def)
  from float_percent_close(1) [OF N(2) N63 le_refl] N(2)
  have "\<bar>float_percent (length target) (length target) - 100\<bar> \<le> 100 / 2 ^ 22" by simp
  with accuracy_all_hits [OF wf N lab ks i] show ?thesis by auto
qed

text \<open>
  The theorem at the scores [[0.9, 0.1], [0.8, 0.2]] with labels [1, 0] and \<open>ks\<close> = (2):
  both labels are classes, and with two examples the entry is 100.
\<close>

theorem accuracy_all_classes_witness:
  "\<exists>res. accuracy \<lparr>ncols = 2, rows = [[0.9, 0.1], [0.8, 0.2 :: real]]\<rparr> [1, 0] [2] = Inr res
        \<and> length res = 1 \<and> res ! 0 = 100 \<and> \<bar>res ! 0 - 100\<bar> \<le> 100 / 2 ^ 22"
proof -
  let ?out = "\<lparr>ncols = 2, rows = [[0.9, 0.1], [0.8, 0.2 :: real]]\<rparr>"
  have wf: "wf_tensor2 ?out" by (simp add: wf_tensor2_def)
  have N: "length (rows ?out) = length [1, 0 :: int]" "0 < length [1, 0 :: int]" by simp_all
  have lab: "\<forall>l \<in> set [1, 0 :: int]. 0 \<le> l \<and> l < int (ncols ?out)" by simp
  have ks: "\<forall>k \<in> set [2 :: int]. k \<le> int (ncols ?out)" by simp
  have i: "0 < length [2 :: int]" "[2 :: int] ! 0 = int (ncols ?out)" by simp_all
  from accuracy_all_classes [OF wf N lab ks i] show ?thesis
    by (simp add: float_percent_2_2 flip: numeral_2_eq_2)
qed

text \<open>
  The claim as first stated fails on 45 examples over two classes with \<open>k\<close> = 2, whatever
  their labels; here the scores are [0.9, 0.1] and the label is 1 each. The float
  nearest to 100/45 is 5003999585967218 / 2 ^ 51, the float32 nearest to that is
  9320676 / 2 ^ 22, and 45 times it is rounded to 13107201 / 2 ^ 17 =
  100.00000762939453125.
\<close>

theorem accuracy_all_classes_counterexample:
  "accuracy \<lparr>ncols = 2, rows = replicate 45 [0.9, 0.1 :: real]\<rparr> (replicate 45 1) [2]
     = Inr [13107201 / 2 ^ 17]
   \<and> (13107201 / 2 ^ 17 :: real) \<noteq> 100"
proof -
  let ?out = "\<lparr>ncols = 2, rows = replicate 45 [0.9, 0.1 :: real]\<rparr>"
  have wf: "wf_tensor2 ?out" by (simp add: wf_tensor2_def list_all_iff)
  have N: "length (rows ?out) = length (replicate 45 (1 :: int))"
    "0 < length (replicate 45 (1 :: int))" by simp_all
  have lab: "\<forall>l \<in> set (replicate 45 (1 :: int)). 0 \<le> l \<and> l < int (ncols ?out)" by simp
  have ks: "\<forall>k \<in> set [2 :: int]. k \<le> int (ncols ?out)" by simp
  have i: "0 < length [2 :: int]" "[2 :: int] ! 0 = int (ncols ?out)" by simp_all
  from accuracy_all_hits [OF wf N lab ks i] obtain res where
    res: "accuracy ?out (replicate 45 1) [2] = Inr res" "length res = 1"
      "res ! 0 = float_percent 45 45" by auto
  from res(2) obtain a where "res = [a]" by (cases res) auto
  with res(3) have "res = [13107201 / 2 ^ 17]" by (simp add: float_percent_45)
  with res(1) show ?thesis by simp
qed

subsection \<open>Rendering\<close>

lemma digit_cases: "d < 10 \<Longrightarrow> d = 0 \<or> d = 1 \<or> d = 2 \<or> d = 3 \<or> d = 4 \<or> d = 5 \<or> d = 6 \<or> d = 7 \<or> d = 8 \<or> d = (9::nat)"
  by arith

lemma digit_char_is_digit: "d < 10 \<Longrightarrow> is_digit (digit_char d)"
  unfolding is_digit_def digit_char_def by (rule nth_mem) simp

lemma digit_val_digit_char: "d < 10 \<Longrightarrow> digit_val (digit_char d) = d"
  by (drule digit_cases) (auto simp: digit_val_def digit_char_def)

lemma digit_char_zero: "d < 10 \<Longrightarrow> (digit_char d = CHR ''0'') = (d = 0)"
  by (drule digit_cases) (auto simp: digit_char_def)

lemma str_nat_digits: "c \<in> set (str_nat n) \<Longrightarrow> is_digit c"
proof (induction n rule: str_nat.induct)
  case (1 n)
  show ?case
  proof (cases "n < 10")
    case True
    with "1.prems" show ?thesis by (simp add: str_nat.simps [of n] digit_char_is_digit)
  next
    case False
    with "1.prems" have "c \<in> set (str_nat (n div 10)) \<or> c = digit_char (n mod 10)"
      by (auto simp: str_nat.simps [of n])
    then show ?thesis using "1.IH" [OF False] by (auto simp: digit_char_is_digit)
  qed
qed

lemma str_nat_nonempty: "str_nat n \<noteq> []"
  by (simp add: str_nat.simps [of n])

lemma hd_str_nat: "0 < n \<Longrightarrow> hd (str_nat n) \<noteq> CHR ''0''"
proof (induction n rule: str_nat.induct)
  case (1 n)
  show ?case
  proof (cases "n < 10")
    case True
    with "1.prems" show ?thesis by (simp add: str_nat.simps [of n] digit_char_zero)
  next
    case False
    then have "0 < n div 10" by simp
    from "1.IH" [OF False this] False show ?thesis
      by (simp add: str_nat.simps [of n] str_nat_nonempty)
  qed
qed

lemma nat_of_digits_snoc: "nat_of_digits (ds @ [c]) = 10 * nat_of_digits ds + digit_val c"
  by (simp add: nat_of_digits_def)

lemma nat_of_digits_str_nat: "nat_of_digits (str_nat n) = n"
proof (induction n rule: str_nat.induct)
  case (1 n)
  show ?case
  proof (cases "n < 10")
    case True
    then show ?thesis by (simp add: str_nat.simps [of n] nat_of_digits_def digit_val_digit_char)
  next
    case False
    from "1.IH" [OF False] False show ?thesis
      by (simp add: str_nat.simps [of n] nat_of_digits_snoc digit_val_digit_char)
  qed
qed

lemma is_digit_not_brace: "is_digit c \<Longrightarrow> \<not> brace c"
  by (auto simp: is_digit_def brace_def)

lemma str_nat_no_brace: "c \<in> set (str_nat n) \<Longrightarrow> \<not> brace c"
  by (rule is_digit_not_brace) (rule str_nat_digits)

lemma str_int_no_brace: "c \<in> set (str_int i) \<Longrightarrow> \<not> brace c"
  by (auto simp: str_int_def brace_def dest: str_nat_no_brace split: if_splits)

lemma parse_spec_width_d:
  assumes "0 < w"
  shows "parse_spec (str_nat w @ ''d'') = Inr (w, None, CHR ''d'')"
proof -
  have nd: "\<not> is_digit CHR ''d''" by (simp add: is_digit_def)
  have tw: "takeWhile is_digit (str_nat w @ ''d'') = str_nat w"
    using nd by (simp add: str_nat_digits)
  have dw: "dropWhile is_digit (str_nat w @ ''d'') = ''d''"
    using nd by (simp add: str_nat_digits)
  show ?thesis
    using hd_str_nat [OF assms]
    by (simp add: parse_spec_def tw dw Let_def str_nat_nonempty nat_of_digits_str_nat)
qed

lemma str_format_field:
  assumes w: "0 < w" and pre: "\<forall>c \<in> set pre. \<not> brace c" and post: "\<forall>c \<in> set post. \<not> brace c"
  shows "str_format (pre @ ''{:'' @ str_nat w @ ''d}'' @ post) x = Inr (pre @ lpad w (str_int x) @ post)"
proof -
  let ?r = "'':'' @ str_nat w @ ''d}'' @ post"
  have t1: "takeWhile (\<lambda>c. \<not> brace c) (pre @ ''{'' @ ?r) = pre"
    using pre by (simp add: brace_def)
  have d1: "dropWhile (\<lambda>c. \<not> brace c) (pre @ ''{'' @ ?r) = ''{'' @ ?r"
    using pre by (simp add: brace_def)
  have nb: "\<forall>c \<in> set ('':'' @ str_nat w @ ''d''). \<not> brace c"
    by (auto simp: brace_def dest: str_nat_no_brace)
  have r: "?r = ('':'' @ str_nat w @ ''d'') @ ''}'' @ post" by simp
  have t2: "takeWhile (\<lambda>c. \<not> brace c) ?r = '':'' @ str_nat w @ ''d''"
    unfolding r using nb by (subst takeWhile_append2) (auto simp: brace_def)
  have d2: "dropWhile (\<lambda>c. \<not> brace c) ?r = ''}'' @ post"
    unfolding r using nb by (subst dropWhile_append2) (auto simp: brace_def)
  have le: "\<not> list_ex brace post" using post by (simp add: list_ex_iff)
  have "str_format (pre @ ''{'' @ ?r) x = Inr (pre @ lpad w (str_int x) @ post)"
    unfolding str_format_def t1 d1 Let_def
    using le t2 d2 by (simp add: parse_spec_width_d [OF w] format_int_def)
  then show ?thesis by simp
qed

lemma length_str_int_pos: "0 < length (str_int i)"
  by (simp add: str_int_def str_nat_nonempty)

lemma get_batch_fmtstr_eq:
  "get_batch_fmtstr n
   = Inr (''[{:'' @ str_nat (length (str_int n)) @ ''d}/'' @ str_int n @ '']'')"
proof -
  have "str_format ([] @ ''{:'' @ str_nat (length (str_int n)) @ ''d}'' @ []) n
        = Inr ([] @ lpad (length (str_int n)) (str_int n) @ [])"
    by (rule str_format_field [OF length_str_int_pos]) simp_all
  then show ?thesis by (simp add: get_batch_fmtstr_def Let_def lpad_def)
qed

lemma str_format_batch_fmtstr:
  "str_format (''[{:'' @ str_nat (length (str_int n)) @ ''d}/'' @ str_int n @ '']'') b
   = Inr (''['' @ lpad (length (str_int n)) (str_int b) @ ''/'' @ str_int n @ '']'')"
proof -
  have "str_format (''['' @ ''{:'' @ str_nat (length (str_int n)) @ ''d}'' @ (''/'' @ str_int n @ '']'')) b
        = Inr (''['' @ lpad (length (str_int n)) (str_int b) @ (''/'' @ str_int n @ '']''))"
    by (rule str_format_field [OF length_str_int_pos])
       (auto simp: brace_def dest: str_int_no_brace)
  then show ?thesis by simp
qed






lemma parse_spec_6_2f: "parse_spec ''6.2f'' = Inr (6, Some 2, CHR ''f'')"
  by (simp add: parse_spec_def is_digit_def nat_of_digits_def digit_val_def Let_def)












subsection \<open>The loops\<close>

lemma logsI:
  assumes "\<And>s. \<exists>ks' zs. calls (snd (f s)) = calls s @ ks' \<and> ks = ks' @ zs"
    and "\<And>s. fst (f s) = None \<Longrightarrow> calls (snd (f s)) = calls s @ ks"
  shows "logs ks f"
  using assms unfolding logs_def by blast

lemma logsD1: "logs ks f \<Longrightarrow> \<exists>ks' zs. calls (snd (f s)) = calls s @ ks' \<and> ks = ks' @ zs"
  unfolding logs_def by blast

lemma logsD2: "logs ks f \<Longrightarrow> fst (f s) = None \<Longrightarrow> calls (snd (f s)) = calls s @ ks"
  unfolding logs_def by blast

lemma logs_run_Nil: "logs [] (run [])"
  by (simp add: logs_def run.simps)

lemma logs_run_Cons:
  assumes f: "logs ks f" and fs: "logs ks' (run fs)"
  shows "logs (ks @ ks') (run (f # fs))"
proof (rule logsI)
  fix s
  obtain r s1 where fs1: "f s = (r, s1)" by (cases "f s")
  from logsD1 [OF f, of s] obtain k1 z1 where k1: "calls (snd (f s)) = calls s @ k1" "ks = k1 @ z1"
    by blast
  show "\<exists>k zs. calls (snd (run (f # fs) s)) = calls s @ k \<and> ks @ ks' = k @ zs"
  proof (cases r)
    case (Some e)
    with fs1 k1 show ?thesis by (auto simp: run.simps)
  next
    case None
    with logsD2 [OF f, of s] fs1 have c1: "calls s1 = calls s @ ks" by simp
    from logsD1 [OF fs, of s1] obtain k2 z2 where
      k2: "calls (snd (run fs s1)) = calls s1 @ k2" "ks' = k2 @ z2"
      by blast
    from None fs1 c1 k2 show ?thesis by (auto simp: run.simps)
  qed
  assume ok: "fst (run (f # fs) s) = None"
  show "calls (snd (run (f # fs) s)) = calls s @ ks @ ks'"
  proof (cases r)
    case (Some e)
    with fs1 ok show ?thesis by (simp add: run.simps)
  next
    case None
    with logsD2 [OF f, of s] fs1 have c1: "calls s1 = calls s @ ks" by simp
    from None fs1 ok have "fst (run fs s1) = None" by (simp add: run.simps)
    with logsD2 [OF fs, of s1] have "calls (snd (run fs s1)) = calls s1 @ ks'" by simp
    with None fs1 c1 show ?thesis by (simp add: run.simps)
  qed
qed

lemma logs_run_map:
  assumes "\<And>b. logs ks (g b)"
  shows "logs (concat (replicate (length bs) ks)) (run (map g bs))"
proof (induction bs)
  case Nil
  show ?case by (simp add: logs_run_Nil)
next
  case (Cons b bs)
  from logs_run_Cons [OF assms [of b] Cons] show ?case by simp
qed

lemma logs_update_stmts:
  "logs [] (update_data_time v n)" "logs [] (update_batch_time v n)"
  "logs [] (update_losses v n)" "logs [] (update_top1 v n)"
  by (auto simp: logs_def update_data_time_def update_batch_time_def update_losses_def
      update_top1_def split: sum.splits)

lemma logs_clock_stmts:
  "logs [] (stmt_data_time c)" "logs [] (stmt_batch_time c)" "logs [] (stmt_end c)"
  using logs_update_stmts
  by (auto simp: logs_def stmt_data_time_def stmt_batch_time_def stmt_end_def read_clock_def
      update_data_time_def update_batch_time_def split: sum.splits)

lemma logs_meter_stmts:
  "logs [] (stmt_accuracy labels)" "logs [] (stmt_losses images)" "logs [] (stmt_top1 images)"
  by (auto simp: logs_def stmt_accuracy_def stmt_losses_def stmt_top1_def
      update_losses_def update_top1_def split: sum.splits list.splits)

lemma logs_call_stmts:
  "logs [Model_forward] (stmt_forward c images)"
  "logs [Criterion] (stmt_loss c labels)"
  "logs [Zero_grad] (stmt_zero_grad c)"
  "logs [Backward] (stmt_backward c images labels)"
  "logs [Optimizer_step] (stmt_optimizer_step c)"
  "logs [Scaler_scale_backward] (stmt_scale_backward c images labels)"
  "logs [Scaler_step] (stmt_scaler_step c)"
  "logs [Scaler_update] (stmt_scaler_update c)"
  by (auto simp: logs_def stmt_forward_def stmt_loss_def stmt_zero_grad_def stmt_backward_def
      stmt_optimizer_step_def stmt_scale_backward_def stmt_scaler_step_def stmt_scaler_update_def
      log_call_def Let_def split: sum.splits)

lemma logs_train_batch: "logs (batch_calls amp) (train_batch c amp b)"
proof -
  obtain images labels where b: "b = (images, labels)" by (cases b)
  note tail = logs_run_Cons [OF logs_meter_stmts(1) logs_run_Cons [OF logs_meter_stmts(2)
      logs_run_Cons [OF logs_meter_stmts(3) logs_run_Cons [OF logs_clock_stmts(2)
      logs_run_Cons [OF logs_clock_stmts(3) logs_run_Nil]]]]]
  show ?thesis
  proof (cases amp)
    case True
    from logs_run_Cons [OF logs_clock_stmts(1) logs_run_Cons [OF logs_call_stmts(1)
      logs_run_Cons [OF logs_call_stmts(2) logs_run_Cons [OF logs_call_stmts(3)
      logs_run_Cons [OF logs_call_stmts(6) logs_run_Cons [OF logs_call_stmts(7)
      logs_run_Cons [OF logs_call_stmts(8) tail]]]]]]]
    show ?thesis using True b by (simp add: train_batch_def batch_calls_def)
  next
    case False
    from logs_run_Cons [OF logs_clock_stmts(1) logs_run_Cons [OF logs_call_stmts(1)
      logs_run_Cons [OF logs_call_stmts(2) logs_run_Cons [OF logs_call_stmts(3)
      logs_run_Cons [OF logs_call_stmts(4) logs_run_Cons [OF logs_call_stmts(5) tail]]]]]]
    show ?thesis using False b by (simp add: train_batch_def batch_calls_def)
  qed
qed

lemma logs_eval_batch: "logs eval_calls (eval_batch c b)"
proof -
  obtain images labels where b: "b = (images, labels)" by (cases b)
  from logs_run_Cons [OF logs_call_stmts(1) logs_run_Cons [OF logs_call_stmts(2)
      logs_run_Cons [OF logs_meter_stmts(1) logs_run_Cons [OF logs_meter_stmts(2)
      logs_run_Cons [OF logs_meter_stmts(3) logs_run_Nil]]]]]
  show ?thesis using b by (simp add: eval_batch_def eval_calls_def)
qed

lemma logs_train_loop:
  "logs (concat (replicate (length train_loader) (batch_calls amp))) (train_loop c amp train_loader)"
  unfolding train_loop_def by (rule logs_run_map) (rule logs_train_batch)

lemma logs_eval_loop:
  "logs (concat (replicate (length eva_loader) eval_calls)) (eval_loop c eva_loader)"
  unfolding eval_loop_def by (rule logs_run_map) (rule logs_eval_batch)

lemma step_calls_append: "step_calls (xs @ ys) = step_calls xs + step_calls ys"
  by (simp add: step_calls_def)

lemma step_calls_batch_calls: "step_calls (batch_calls amp) = 1"
  by (simp add: step_calls_def batch_calls_def is_step_def)

lemma step_calls_eval_calls: "step_calls eval_calls = 0"
  by (simp add: step_calls_def eval_calls_def is_step_def)

lemma step_calls_concat_replicate: "step_calls (concat (replicate n ks)) = n * step_calls ks"
  by (induction n) (simp_all add: step_calls_append, simp add: step_calls_def)

lemma ProgressMeter_init_Inr:
  "ProgressMeter_init n ms pfx
   = Inr \<lparr>batch_fmtstr = ''[{:'' @ str_nat (length (str_int n)) @ ''d}/'' @ str_int n @ '']'',
          meters = ms, prefix = pfx\<rparr>"
  by (simp add: ProgressMeter_init_def get_batch_fmtstr_eq)

lemma stmt_end_eq: "stmt_end c s = (None, s\<lparr>ticks := Suc (ticks s), end_t := clock c (ticks s)\<rparr>)"
  by (simp add: stmt_end_def read_clock_def)

text \<open>What \<open>train\<close> returns, in terms of what its loop returns.\<close>

lemma train_unfold:
  "train c w train_loader epoch amp =
     (let s2 = (init_state w '':6.2f'')\<lparr>calls := [Model_train],
                 world := model_train c w, ticks := Suc 0, end_t := clock c 0\<rparr>
      in case train_loop c amp train_loader s2 of
           (Some e, s3) \<Rightarrow> (Inl e, s3)
         | (None, s3) \<Rightarrow>
             (case display \<lparr>batch_fmtstr = ''[{:'' @ str_nat (length (str_int (int (length train_loader))))
                                            @ ''d}/'' @ str_int (int (length train_loader)) @ '']'',
                             meters = [batch_time s3, data_time s3, losses s3, top1 s3],
                             prefix = getTime c @ '' Train Epoch: ['' @ str_int (epoch + 1) @ '']''\<rparr> 0 of
                Inl e \<Rightarrow> (Inl e, s3)
              | Inr line \<Rightarrow>
                  if train_loader = []
                  then (Inl AttributeError, s3\<lparr>printed := printed s3 @ [Display_line line]\<rparr>)
                  else (Inr (avg (losses s3), avg (top1 s3)),
                        s3\<lparr>printed := printed s3 @ [Display_line line]\<rparr>)))"
  by (simp add: train_def ProgressMeter_init_Inr stmt_end_eq log_call_def init_state_def Let_def
      split: prod.splits option.splits sum.splits)

lemma train_calls:
  fixes c :: "('w, 'px, 's::linorder) collaborators"
  shows "\<exists>ks zs. calls (snd (train c w train_loader epoch amp)) = Model_train # ks
      \<and> concat (replicate (length train_loader) (batch_calls amp)) = ks @ zs
      \<and> ((\<exists>r. fst (train c w train_loader epoch amp) = Inr r) \<longrightarrow> zs = [])"
proof -
  let ?s2 = "(init_state w '':6.2f'' :: ('w, 's) run_state)\<lparr>calls := [Model_train],
                 world := model_train c w, ticks := Suc 0, end_t := clock c 0\<rparr>"
  let ?all = "concat (replicate (length train_loader) (batch_calls amp))"
  obtain r s3 where l: "train_loop c amp train_loader ?s2 = (r, s3)"
    by (cases "train_loop c amp train_loader ?s2")
  from logsD1 [OF logs_train_loop [of train_loader amp c], of ?s2] l
  obtain ks zs where ks: "calls s3 = [Model_train] @ ks" "?all = ks @ zs"
    by auto
  show ?thesis
  proof (cases r)
    case (Some e)
    with l have "train c w train_loader epoch amp = (Inl e, s3)"
      by (simp add: train_unfold)
    with ks show ?thesis by auto
  next
    case None
    from logsD2 [OF logs_train_loop [of train_loader amp c], of ?s2] l None
    have full: "calls s3 = [Model_train] @ ?all" by simp
    from l None have "calls (snd (train c w train_loader epoch amp)) = calls s3"
      by (simp add: train_unfold split: sum.splits)
    with full show ?thesis by auto
  qed
qed

lemma evaluate_calls:
  fixes c :: "('w, 'px, 's::linorder) collaborators"
  shows "\<exists>ks zs. calls (snd (evaluate c w eva_loader pfx ignore)) = Model_eval # ks
      \<and> concat (replicate (length eva_loader) eval_calls) = ks @ zs"
proof -
  let ?s0 = "init_state w '':3.2f'' :: ('w, 's) run_state"
  let ?s1 = "(log_call Model_eval ?s0)\<lparr>world := model_eval c (world ?s0)\<rparr>"
  obtain r s2 where l: "eval_loop c eva_loader ?s1 = (r, s2)"
    by (cases "eval_loop c eva_loader ?s1")
  have c1: "calls ?s1 = [Model_eval]" by (simp add: log_call_def init_state_def)
  from logsD1 [OF logs_eval_loop [of eva_loader c], of ?s1] l c1
  obtain ks zs where ks: "calls s2 = [Model_eval] @ ks"
    "concat (replicate (length eva_loader) eval_calls) = ks @ zs"
    by auto
  from l have "calls (snd (evaluate c w eva_loader pfx ignore)) = calls s2"
    by (cases r) (simp_all add: evaluate_def Let_def)
  with ks show ?thesis by auto
qed

lemma demo_scores: "rev (map int [0..<5]) = [4, 3, 2, 1, 0]" "rev (map int [0..<2]) = [1, 0]"
  by code_simp+

lemma demo_accuracy_1:
  "accuracy \<lparr>ncols = 5, rows = [[4, 3, 2, 1, 0], [4, 3, 2, 1, 0 :: int]]\<rparr> [0, 1] [1, 5] = Inr [50, 100]"
proof -
  let ?out = "\<lparr>ncols = 5, rows = [[4, 3, 2, 1, 0], [4, 3, 2, 1, 0 :: int]]\<rparr>"
  have wf: "wf_tensor2 ?out" by (simp add: wf_tensor2_def)
  have h1: "spec_hits (nat 1) [[4, 3, 2, 1, 0], [4, 3, 2, 1, 0 :: int]] [0, 1] = 1" by code_simp
  have h5: "spec_hits (nat 5) [[4, 3, 2, 1, 0], [4, 3, 2, 1, 0 :: int]] [0, 1] = 2" by code_simp
  show ?thesis
    using accuracy_spec_hits [OF wf, of 2 "[0, 1]" "[1, 5]"] h1 h5
    by (simp add: float_percent_1_2 float_percent_2_2)
qed

lemma demo_accuracy_2:
  "accuracy \<lparr>ncols = 5, rows = [[4, 3, 2, 1, 0 :: int]]\<rparr> [4] [1, 5] = Inr [0, 100]"
proof -
  let ?out = "\<lparr>ncols = 5, rows = [[4, 3, 2, 1, 0 :: int]]\<rparr>"
  have wf: "wf_tensor2 ?out" by (simp add: wf_tensor2_def)
  have h1: "spec_hits (nat 1) [[4, 3, 2, 1, 0 :: int]] [4] = 0" by code_simp
  have h5: "spec_hits (nat 5) [[4, 3, 2, 1, 0 :: int]] [4] = 1" by code_simp
  show ?thesis
    using accuracy_spec_hits [OF wf, of 1 "[4]" "[1, 5]"] h1 h5
    by (simp add: float_percent_0 float_percent_1_1)
qed


lemma update_updated: "count_m m + n \<noteq> 0 \<Longrightarrow> update m v n = Inr (updated m v n)"
  by (simp add: update_def update_pre_def updated_def Let_def)

lemma train_batch_plain_ok:
  assumes fw: "model_forward c (world s) images = Inr y"
    and ls: "ceriation c y labels = Inr l"
    and bw: "backward c (zero_grad c (world s)) images labels = Inr w1"
    and st: "optimizer_step c w1 = Inr w2"
    and ac: "accuracy y labels [1, 5] = Inr [a1, a5]"
    and im: "images = x # xs"
    and cnt: "count_m (losses s) + real (length x) \<noteq> 0" "count_m (top1 s) + real (length x) \<noteq> 0"
      "count_m (data_time s) + 1 \<noteq> 0" "count_m (batch_time s) + 1 \<noteq> 0"
  shows "train_batch c False (images, labels) s
         = (None, s\<lparr>world := w2,
                     calls := calls s @ [Model_forward, Criterion, Zero_grad, Backward, Optimizer_step],
                     ticks := ticks s + 3,
                     batch_time := updated (batch_time s) (clock c (Suc (ticks s)) - end_t s) 1,
                     data_time := updated (data_time s) (clock c (ticks s) - end_t s) 1,
                     losses := updated (losses s) l (real (length x)),
                     top1 := updated (top1 s) a1 (real (length x)),
                     end_t := clock c (Suc (Suc (ticks s))),
                     logist := y, loss := l, acc1 := a1\<rparr>)"
proof -
  have 1: "stmt_data_time c s = (None, s\<lparr>ticks := Suc (ticks s),
              data_time := updated (data_time s) (clock c (ticks s) - end_t s) 1\<rparr>)"
    (is "_ = (None, ?s1)")
    using cnt(3) by (simp add: stmt_data_time_def read_clock_def update_data_time_def update_updated)
  have 2: "stmt_forward c images ?s1 = (None, ?s1\<lparr>calls := calls s @ [Model_forward], logist := y\<rparr>)"
    (is "_ = (None, ?s2)")
    using fw by (simp add: stmt_forward_def log_call_def Let_def)
  have 3: "stmt_loss c labels ?s2 = (None, ?s2\<lparr>calls := calls s @ [Model_forward, Criterion], loss := l\<rparr>)"
    (is "_ = (None, ?s3)")
    using ls by (simp add: stmt_loss_def log_call_def Let_def)
  have 4: "stmt_zero_grad c ?s3 = (None, ?s3\<lparr>calls := calls s @ [Model_forward, Criterion, Zero_grad],
              world := zero_grad c (world s)\<rparr>)"
    (is "_ = (None, ?s4)")
    by (simp add: stmt_zero_grad_def log_call_def)
  have 5: "stmt_backward c images labels ?s4
           = (None, ?s4\<lparr>calls := calls s @ [Model_forward, Criterion, Zero_grad, Backward], world := w1\<rparr>)"
    (is "_ = (None, ?s5)")
    using bw by (simp add: stmt_backward_def log_call_def Let_def)
  have 6: "stmt_optimizer_step c ?s5
           = (None, ?s5\<lparr>calls := calls s @ [Model_forward, Criterion, Zero_grad, Backward, Optimizer_step],
                         world := w2\<rparr>)"
    (is "_ = (None, ?s6)")
    using st by (simp add: stmt_optimizer_step_def log_call_def Let_def)
  have 7: "stmt_accuracy labels ?s6 = (None, ?s6\<lparr>acc1 := a1\<rparr>)"
    (is "_ = (None, ?s7)")
    using ac by (simp add: stmt_accuracy_def)
  have 8: "stmt_losses images ?s7 = (None, ?s7\<lparr>losses := updated (losses s) l (real (length x))\<rparr>)"
    (is "_ = (None, ?s8)")
    using im cnt(1) by (simp add: stmt_losses_def first_size_def update_losses_def update_updated)
  have 9: "stmt_top1 images ?s8 = (None, ?s8\<lparr>top1 := updated (top1 s) a1 (real (length x))\<rparr>)"
    (is "_ = (None, ?s9)")
    using im cnt(2) by (simp add: stmt_top1_def first_size_def update_top1_def update_updated)
  have 10: "stmt_batch_time c ?s9 = (None, ?s9\<lparr>ticks := Suc (Suc (ticks s)),
              batch_time := updated (batch_time s) (clock c (Suc (ticks s)) - end_t s) 1\<rparr>)"
    (is "_ = (None, ?s10)")
    using cnt(4) by (simp add: stmt_batch_time_def read_clock_def update_batch_time_def update_updated)
  have 11: "stmt_end c ?s10 = (None, ?s10\<lparr>ticks := Suc (Suc (Suc (ticks s))),
              end_t := clock c (Suc (Suc (ticks s)))\<rparr>)"
    (is "_ = (None, ?s11)")
    by (simp add: stmt_end_def read_clock_def)
  have "train_batch c False (images, labels) s = (None, ?s11)"
    by (simp only: train_batch_def prod.case if_False append.simps run.simps option.case
        1 2 3 4 5 6 7 8 9 10 11)
  then show ?thesis by simp
qed

lemma AverageMeter_str_6_2f:
  "fmt m = '':6.2f'' \<Longrightarrow> AverageMeter_str m = Inr (name m @ '' '' @ lpad 6 (fixed_str 2 (avg m)))"
  by (simp add: AverageMeter_str_def parse_spec_6_2f format_float_def)

lemma fmt_updated: "fmt (updated m v n) = fmt m" "name (updated m v n) = name m"
  by (simp_all add: updated_def)

lemma demo_train_loop:
  "\<exists>s3. train_loop (demo_collaborators 5) False demo_loader
          ((init_state 0 '':6.2f'')\<lparr>calls := [Model_train],
              world := model_train (demo_collaborators 5) 0, ticks := Suc 0,
              end_t := clock (demo_collaborators 5) 0\<rparr>)
        = (None, s3)
      \<and> world s3 = 2
      \<and> calls s3 = [Model_train, Model_forward, Criterion, Zero_grad, Backward, Optimizer_step,
                     Model_forward, Criterion, Zero_grad, Backward, Optimizer_step]
      \<and> losses s3 = updated (updated (AverageMeter_init ''Loss'' '':6.2f'') 1 3) 4 3
      \<and> top1 s3 = updated (updated (AverageMeter_init ''Acc@1'' '':6.2f'') 50 3) 0 3
      \<and> fmt (batch_time s3) = '':6.2f'' \<and> fmt (data_time s3) = '':6.2f''"
proof -
  let ?c = "demo_collaborators 5"
  let ?s2 = "(init_state 0 '':6.2f'' :: (nat, int) run_state)\<lparr>calls := [Model_train],
              world := model_train ?c 0, ticks := Suc 0, end_t := clock ?c 0\<rparr>"
  let ?b1 = "([[(), (), ()], [(), (), ()]], [0, 1 :: int])"
  let ?b2 = "([[(), (), ()]], [4 :: int])"
  have z: "count_m (AverageMeter_init nm f) = 0" for nm f
    by (simp add: AverageMeter_init_def reset_def)
  have w2: "world ?s2 = 0" by (simp add: demo_collaborators_def)
  obtain s3a where
    b1: "train_batch ?c False ?b1 ?s2 = (None, s3a)"
    and s3a: "s3a = ?s2\<lparr>world := Suc 0,
                     calls := calls ?s2 @ [Model_forward, Criterion, Zero_grad, Backward, Optimizer_step],
                     ticks := ticks ?s2 + 3,
                     batch_time := updated (batch_time ?s2) (clock ?c (Suc (ticks ?s2)) - end_t ?s2) 1,
                     data_time := updated (data_time ?s2) (clock ?c (ticks ?s2) - end_t ?s2) 1,
                     losses := updated (losses ?s2) 1 (real (length [(), (), ()])),
                     top1 := updated (top1 ?s2) 50 (real (length [(), (), ()])),
                     end_t := clock ?c (Suc (Suc (ticks ?s2))),
                     logist := \<lparr>ncols = 5, rows = [[4, 3, 2, 1, 0], [4, 3, 2, 1, 0]]\<rparr>,
                     loss := 1, acc1 := 50\<rparr>"
  proof -
    have "train_batch ?c False ?b1 ?s2 = (None, ?s2\<lparr>world := Suc 0,
                     calls := calls ?s2 @ [Model_forward, Criterion, Zero_grad, Backward, Optimizer_step],
                     ticks := ticks ?s2 + 3,
                     batch_time := updated (batch_time ?s2) (clock ?c (Suc (ticks ?s2)) - end_t ?s2) 1,
                     data_time := updated (data_time ?s2) (clock ?c (ticks ?s2) - end_t ?s2) 1,
                     losses := updated (losses ?s2) 1 (real (length [(), (), ()])),
                     top1 := updated (top1 ?s2) 50 (real (length [(), (), ()])),
                     end_t := clock ?c (Suc (Suc (ticks ?s2))),
                     logist := \<lparr>ncols = 5, rows = [[4, 3, 2, 1, 0], [4, 3, 2, 1, 0]]\<rparr>,
                     loss := 1, acc1 := 50\<rparr>)"
      by (rule train_batch_plain_ok [where ?a5.0 = 100 and xs = "[[(), (), ()]]" and ?w1.0 = 0])
         (simp_all add: demo_collaborators_def demo_scores demo_accuracy_1 init_state_def z)
    then show ?thesis using that by blast
  qed
  obtain s3 where
    b2: "train_batch ?c False ?b2 s3a = (None, s3)"
    and s3: "s3 = s3a\<lparr>world := Suc (Suc 0),
                     calls := calls s3a @ [Model_forward, Criterion, Zero_grad, Backward, Optimizer_step],
                     ticks := ticks s3a + 3,
                     batch_time := updated (batch_time s3a) (clock ?c (Suc (ticks s3a)) - end_t s3a) 1,
                     data_time := updated (data_time s3a) (clock ?c (ticks s3a) - end_t s3a) 1,
                     losses := updated (losses s3a) 4 (real (length [(), (), ()])),
                     top1 := updated (top1 s3a) 0 (real (length [(), (), ()])),
                     end_t := clock ?c (Suc (Suc (ticks s3a))),
                     logist := \<lparr>ncols = 5, rows = [[4, 3, 2, 1, 0]]\<rparr>,
                     loss := 4, acc1 := 0\<rparr>"
  proof -
    have "train_batch ?c False ?b2 s3a = (None, s3a\<lparr>world := Suc (Suc 0),
                     calls := calls s3a @ [Model_forward, Criterion, Zero_grad, Backward, Optimizer_step],
                     ticks := ticks s3a + 3,
                     batch_time := updated (batch_time s3a) (clock ?c (Suc (ticks s3a)) - end_t s3a) 1,
                     data_time := updated (data_time s3a) (clock ?c (ticks s3a) - end_t s3a) 1,
                     losses := updated (losses s3a) 4 (real (length [(), (), ()])),
                     top1 := updated (top1 s3a) 0 (real (length [(), (), ()])),
                     end_t := clock ?c (Suc (Suc (ticks s3a))),
                     logist := \<lparr>ncols = 5, rows = [[4, 3, 2, 1, 0]]\<rparr>,
                     loss := 4, acc1 := 0\<rparr>)"
      by (rule train_batch_plain_ok [where ?a5.0 = 100 and xs = "[]" and ?w1.0 = "Suc 0"])
         (simp_all add: s3a demo_collaborators_def demo_scores demo_accuracy_2 init_state_def z
            updated_def)
    then show ?thesis using that by blast
  qed
  have loop: "train_loop ?c False demo_loader ?s2 = (None, s3)"
    by (simp only: train_loop_def demo_loader_def list.map run.simps b1 b2 prod.case option.case)
  have "world s3 = 2" by (simp add: s3)
  moreover have "calls s3 = [Model_train, Model_forward, Criterion, Zero_grad, Backward, Optimizer_step,
                     Model_forward, Criterion, Zero_grad, Backward, Optimizer_step]"
    by (simp add: s3 s3a)
  moreover have "losses s3 = updated (updated (AverageMeter_init ''Loss'' '':6.2f'') 1 3) 4 3"
    by (simp add: s3 s3a init_state_def)
  moreover have "top1 s3 = updated (updated (AverageMeter_init ''Acc@1'' '':6.2f'') 50 3) 0 3"
    by (simp add: s3 s3a init_state_def)
  moreover have "fmt (batch_time s3) = '':6.2f''" "fmt (data_time s3) = '':6.2f''"
    by (simp_all add: s3 s3a init_state_def fmt_updated AverageMeter_init_def reset_def)
  ultimately show ?thesis using loop by blast
qed

lemma demo_train:
  "fst (train (demo_collaborators 5) 0 demo_loader 0 False) = Inr (5 / 2, 25)
   \<and> world (snd (train (demo_collaborators 5) 0 demo_loader 0 False)) = 2
   \<and> calls (snd (train (demo_collaborators 5) 0 demo_loader 0 False))
       = [Model_train, Model_forward, Criterion, Zero_grad, Backward, Optimizer_step,
          Model_forward, Criterion, Zero_grad, Backward, Optimizer_step]
   \<and> count_m (losses (snd (train (demo_collaborators 5) 0 demo_loader 0 False))) = 6
   \<and> count_m (top1 (snd (train (demo_collaborators 5) 0 demo_loader 0 False))) = 6"
proof -
  from demo_train_loop obtain s3 :: "(nat, int) run_state" where
    loop: "train_loop (demo_collaborators 5) False demo_loader
          ((init_state 0 '':6.2f'')\<lparr>calls := [Model_train],
              world := model_train (demo_collaborators 5) 0, ticks := Suc 0,
              end_t := clock (demo_collaborators 5) 0\<rparr>) = (None, s3)"
    and s3: "world s3 = 2"
      "calls s3 = [Model_train, Model_forward, Criterion, Zero_grad, Backward, Optimizer_step,
                     Model_forward, Criterion, Zero_grad, Backward, Optimizer_step]"
      "losses s3 = updated (updated (AverageMeter_init ''Loss'' '':6.2f'') 1 3) 4 3"
      "top1 s3 = updated (updated (AverageMeter_init ''Acc@1'' '':6.2f'') 50 3) 0 3"
      "fmt (batch_time s3) = '':6.2f''" "fmt (data_time s3) = '':6.2f''"
    by blast
  have ms: "\<exists>ss. meter_strs [batch_time s3, data_time s3, losses s3, top1 s3] = Inr ss"
    by (simp add: AverageMeter_str_6_2f s3 fmt_updated AverageMeter_init_def reset_def)
  then obtain ss where ss: "meter_strs [batch_time s3, data_time s3, losses s3, top1 s3] = Inr ss" ..
  have ne: "demo_loader \<noteq> []" by (simp add: demo_loader_def)
  have d: "\<exists>line. display \<lparr>batch_fmtstr = ''[{:'' @ str_nat (length (str_int (int (length demo_loader))))
                                            @ ''d}/'' @ str_int (int (length demo_loader)) @ '']'',
                             meters = [batch_time s3, data_time s3, losses s3, top1 s3],
                             prefix = getTime (demo_collaborators 5) @ '' Train Epoch: ['' @ str_int (0 + 1) @ '']''\<rparr> 0
              = Inr line"
    by (simp only: display_def str_format_batch_fmtstr ProgressMeter.simps ss sum.case) simp
  then obtain line where line: "display \<lparr>batch_fmtstr = ''[{:'' @ str_nat (length (str_int (int (length demo_loader))))
                                            @ ''d}/'' @ str_int (int (length demo_loader)) @ '']'',
                             meters = [batch_time s3, data_time s3, losses s3, top1 s3],
                             prefix = getTime (demo_collaborators 5) @ '' Train Epoch: ['' @ str_int (0 + 1) @ '']''\<rparr> 0
              = Inr line" ..
  have "train (demo_collaborators 5) 0 demo_loader 0 False
        = (Inr (avg (losses s3), avg (top1 s3)), s3\<lparr>printed := printed s3 @ [Display_line line]\<rparr>)"
    by (simp only: train_unfold Let_def loop prod.case option.case line sum.case ne if_False)
  then show ?thesis by (simp add: s3 updated_def AverageMeter_init_def reset_def)
qed

lemma train_batch_plain_accuracy_raises:
  assumes fw: "model_forward c (world s) images = Inr y"
    and ls: "ceriation c y labels = Inr l"
    and bw: "backward c (zero_grad c (world s)) images labels = Inr w1"
    and st: "optimizer_step c w1 = Inr w2"
    and ac: "accuracy y labels [1, 5] = Inl e"
    and cnt: "count_m (data_time s) + 1 \<noteq> 0"
  shows "fst (train_batch c False (images, labels) s) = Some e
         \<and> calls (snd (train_batch c False (images, labels) s))
             = calls s @ [Model_forward, Criterion, Zero_grad, Backward, Optimizer_step]"
proof -
  have 1: "stmt_data_time c s = (None, s\<lparr>ticks := Suc (ticks s),
              data_time := updated (data_time s) (clock c (ticks s) - end_t s) 1\<rparr>)"
    (is "_ = (None, ?s1)")
    using cnt by (simp add: stmt_data_time_def read_clock_def update_data_time_def update_updated)
  have 2: "stmt_forward c images ?s1 = (None, ?s1\<lparr>calls := calls s @ [Model_forward], logist := y\<rparr>)"
    (is "_ = (None, ?s2)")
    using fw by (simp add: stmt_forward_def log_call_def Let_def)
  have 3: "stmt_loss c labels ?s2 = (None, ?s2\<lparr>calls := calls s @ [Model_forward, Criterion], loss := l\<rparr>)"
    (is "_ = (None, ?s3)")
    using ls by (simp add: stmt_loss_def log_call_def Let_def)
  have 4: "stmt_zero_grad c ?s3 = (None, ?s3\<lparr>calls := calls s @ [Model_forward, Criterion, Zero_grad],
              world := zero_grad c (world s)\<rparr>)"
    (is "_ = (None, ?s4)")
    by (simp add: stmt_zero_grad_def log_call_def)
  have 5: "stmt_backward c images labels ?s4
           = (None, ?s4\<lparr>calls := calls s @ [Model_forward, Criterion, Zero_grad, Backward], world := w1\<rparr>)"
    (is "_ = (None, ?s5)")
    using bw by (simp add: stmt_backward_def log_call_def Let_def)
  have 6: "stmt_optimizer_step c ?s5
           = (None, ?s5\<lparr>calls := calls s @ [Model_forward, Criterion, Zero_grad, Backward, Optimizer_step],
                         world := w2\<rparr>)"
    (is "_ = (None, ?s6)")
    using st by (simp add: stmt_optimizer_step_def log_call_def Let_def)
  have 7: "stmt_accuracy labels ?s6 = (Some e, ?s6)"
    using ac by (simp add: stmt_accuracy_def)
  have "train_batch c False (images, labels) s = (Some e, ?s6)"
    by (simp only: train_batch_def prod.case if_False append.simps run.simps option.case
        1 2 3 4 5 6 7)
  then show ?thesis by simp
qed

lemma demo_train_two_classes:
  "fst (train (demo_collaborators 2) 0 demo_loader 0 False) = Inl RuntimeError
   \<and> calls (snd (train (demo_collaborators 2) 0 demo_loader 0 False))
       = [Model_train, Model_forward, Criterion, Zero_grad, Backward, Optimizer_step]"
proof -
  let ?c = "demo_collaborators 2"
  let ?s2 = "(init_state 0 '':6.2f'' :: (nat, int) run_state)\<lparr>calls := [Model_train],
              world := model_train ?c 0, ticks := Suc 0, end_t := clock ?c 0\<rparr>"
  let ?b1 = "([[(), (), ()], [(), (), ()]], [0, 1 :: int])"
  let ?b2 = "([[(), (), ()]], [4 :: int])"
  have ac: "accuracy \<lparr>ncols = 2, rows = [[1, 0], [1, 0 :: int]]\<rparr> [0, 1] [1, 5] = Inl RuntimeError"
    by (rule accuracy_topk_range) simp
  have b1: "fst (train_batch ?c False ?b1 ?s2) = Some RuntimeError
         \<and> calls (snd (train_batch ?c False ?b1 ?s2))
             = calls ?s2 @ [Model_forward, Criterion, Zero_grad, Backward, Optimizer_step]"
    by (rule train_batch_plain_accuracy_raises [where ?w1.0 = 0 and ?w2.0 = "Suc 0" and l = 1
          and y = "\<lparr>ncols = 2, rows = [[1, 0], [1, 0 :: int]]\<rparr>"])
       (simp_all add: demo_collaborators_def demo_scores ac init_state_def AverageMeter_init_def
          reset_def)
  obtain r s3 where tb: "train_batch ?c False ?b1 ?s2 = (r, s3)"
    by (cases "train_batch ?c False ?b1 ?s2")
  with b1 have r: "r = Some RuntimeError"
    and c3: "calls s3 = [Model_train, Model_forward, Criterion, Zero_grad, Backward, Optimizer_step]"
    by simp_all
  have loop: "train_loop ?c False demo_loader ?s2 = (Some RuntimeError, s3)"
    using tb r
    by (simp only: train_loop_def demo_loader_def list.map run.simps prod.case option.case)
  have "train ?c 0 demo_loader 0 False = (Inl RuntimeError, s3)"
    by (simp only: train_unfold Let_def loop prod.case option.case)
  with c3 show ?thesis by simp
qed

text \<open>
  Claim C3, amended. The loop of \<open>train\<close> asks for one parameter update per batch it
  gets through: \<^verbatim>\<open>optimizer.step()\<close> on the plain path, \<^verbatim>\<open>scaler.step(optimizer)\<close> on the
  mixed-precision path. So on every run over a loader of B batches \<open>train\<close> makes at
  most B such calls; on every run that returns it has made exactly B, and its log is
  \<^verbatim>\<open>model.train()\<close> followed B times by the calls of one pass. \<open>evaluate\<close> makes none,
  on any run. A run that an exception ends inside the loop stops after the call that
  raised, which is why "exactly B for every loader" does not hold.
\<close>

theorem train_step_calls:
  fixes c :: "('w, 'px, 's::linorder) collaborators"
  shows "step_calls (calls (snd (train c w train_loader epoch amp))) \<le> length train_loader
     \<and> ((\<exists>r. fst (train c w train_loader epoch amp) = Inr r) \<longrightarrow>
          calls (snd (train c w train_loader epoch amp))
            = Model_train # concat (replicate (length train_loader) (batch_calls amp))
          \<and> step_calls (calls (snd (train c w train_loader epoch amp))) = length train_loader)
     \<and> step_calls (calls (snd (evaluate c w eva_loader pfx ignore))) = 0"
proof (intro conjI impI)
  from train_calls [of c w train_loader epoch amp] obtain ks zs where
    t: "calls (snd (train c w train_loader epoch amp)) = Model_train # ks"
       "concat (replicate (length train_loader) (batch_calls amp)) = ks @ zs"
       "(\<exists>r. fst (train c w train_loader epoch amp) = Inr r) \<longrightarrow> zs = []"
    by blast
  have "step_calls ks + step_calls zs = length train_loader"
    using arg_cong [OF t(2), of step_calls]
    by (simp add: step_calls_concat_replicate step_calls_batch_calls step_calls_append)
  then have le: "step_calls ks \<le> length train_loader" by simp
  have m: "step_calls (Model_train # ks) = step_calls ks"
    by (simp add: step_calls_def is_step_def)
  from le m t(1) show "step_calls (calls (snd (train c w train_loader epoch amp))) \<le> length train_loader"
    by simp
  assume ok: "\<exists>r. fst (train c w train_loader epoch amp) = Inr r"
  with t(3) have z: "zs = []" by simp
  with t(1) t(2) show "calls (snd (train c w train_loader epoch amp))
            = Model_train # concat (replicate (length train_loader) (batch_calls amp))"
    by simp
  then show "step_calls (calls (snd (train c w train_loader epoch amp))) = length train_loader"
    by (simp add: step_calls_def is_step_def)
       (simp add: step_calls_def [symmetric] step_calls_concat_replicate step_calls_batch_calls)
next
  from evaluate_calls [of c w eva_loader pfx ignore] obtain ks zs where
    e: "calls (snd (evaluate c w eva_loader pfx ignore)) = Model_eval # ks"
       "concat (replicate (length eva_loader) eval_calls) = ks @ zs"
    by blast
  have "step_calls ks + step_calls zs = 0"
    using arg_cong [OF e(2), of step_calls]
    by (simp add: step_calls_concat_replicate step_calls_eval_calls step_calls_append)
  then have "step_calls ks = 0" by simp
  with e(1) show "step_calls (calls (snd (evaluate c w eva_loader pfx ignore))) = 0"
    by (simp add: step_calls_def is_step_def)
qed

text \<open>
  The theorem on the demonstration run with five classes: \<open>train\<close> returns, with two
  \<^verbatim>\<open>optimizer.step()\<close> calls for the two batches.
\<close>

theorem train_step_calls_witness:
  "step_calls (calls (snd (train (demo_collaborators 5) 0 demo_loader 0 False))) = 2
   \<and> calls (snd (train (demo_collaborators 5) 0 demo_loader 0 False))
       = [Model_train, Model_forward, Criterion, Zero_grad, Backward, Optimizer_step,
          Model_forward, Criterion, Zero_grad, Backward, Optimizer_step]
   \<and> step_calls (calls (snd (evaluate (demo_collaborators 5) 0 demo_loader ''Val'' (- 1)))) = 0"
proof -
  have ok: "\<exists>r. fst (train (demo_collaborators 5) 0 demo_loader 0 False) = Inr r"
    using demo_train by blast
  have len: "length demo_loader = Suc (Suc 0)" by (simp add: demo_loader_def)
  from train_step_calls [of "demo_collaborators 5" 0 demo_loader 0 False demo_loader "''Val''" "- 1"] ok
  show ?thesis by (simp add: len batch_calls_def step_calls_def is_step_def)
qed

text \<open>
  The claim as first stated fails on the same loader of two batches with a model of
  two classes: \<^verbatim>\<open>accuracy(logist, labels, topk=(1, 5))\<close> raises in the first pass,
  after the first \<^verbatim>\<open>optimizer.step()\<close>, and the epoch ends with one update, not two.
\<close>

theorem train_step_calls_counterexample:
  "length demo_loader = 2
   \<and> fst (train (demo_collaborators 2) 0 demo_loader 0 False) = Inl RuntimeError
   \<and> step_calls (calls (snd (train (demo_collaborators 2) 0 demo_loader 0 False))) = 1"
  using demo_train_two_classes by (simp add: step_calls_def is_step_def demo_loader_def)

text \<open>
  Claim C4. The claim says the meters \<^verbatim>\<open>losses\<close> and \<^verbatim>\<open>top1\<close> are updated with the number
  of examples of the batch as weight. The source passes \<^verbatim>\<open>images[0].size(0)\<close>, the size
  of the first dimension of the first example, which for a batch of images is the
  number of channels (\<open>train_batch_plain_ok\<close> shows the weight \<open>length x\<close> for a batch
  \<open>x # xs\<close>). On the demonstration run the loader delivers 2 + 1 = 3 examples of three
  channels each, with losses 1 and 4 and top-1 accuracies 50 and 0: both meters end
  with count 3 + 3 = 6 instead of 3, and \<open>train\<close> returns the averages 5/2 and 25 where
  the averages weighted by example count are (2 * 1 + 1 * 4) / 3 = 2 and
  (2 * 50 + 1 * 0) / 3 = 100/3.
\<close>

theorem train_weight_is_first_example_size:
  "fst (train (demo_collaborators 5) 0 demo_loader 0 False) = Inr (5 / 2, 25)
   \<and> count_m (losses (snd (train (demo_collaborators 5) 0 demo_loader 0 False))) = 6
   \<and> count_m (top1 (snd (train (demo_collaborators 5) 0 demo_loader 0 False))) = 6
   \<and> sum_list (map (\<lambda>b. real (length (fst b))) demo_loader) = 3"
  using demo_train by (simp add: demo_loader_def)

theorem train_weight_is_first_example_size_witness:
  "count_m (losses (snd (train (demo_collaborators 5) 0 demo_loader 0 False)))
   \<noteq> sum_list (map (\<lambda>b. real (length (fst b))) demo_loader)"
  using train_weight_is_first_example_size by simp

text \<open>
  Claim C9. \<open>evaluate\<close> never reads its parameter \<^verbatim>\<open>ignore\<close>: for any two values of it
  and otherwise the same arguments, the outcome (the returned pair of averages, or the
  exception) and the final state, with what was printed, are the same.
\<close>

theorem evaluate_ignore:
  "evaluate c w eva_loader pfx ignore1 = evaluate c w eva_loader pfx ignore2"
  by (simp add: evaluate_def)

text \<open>The theorem on the demonstration loader with \<^verbatim>\<open>ignore\<close> -1 and 255.\<close>

theorem evaluate_ignore_witness:
  "evaluate (demo_collaborators 5) 0 demo_loader ''Val'' (- 1)
   = evaluate (demo_collaborators 5) 0 demo_loader ''Val'' 255"
  by (rule evaluate_ignore)

end
